theory Spec2Isabelle
  imports Complex_Main
begin

section \<open>Data model of \<^verbatim>\<open>pos/model.py\<close>\<close>

text \<open>
  Tensors are nested lists: a rank-3 tensor \<open>(batch, seq, features)\<close> is a list of
  sentences, each a list of feature vectors.  Tensor entries are reals; where a property depends on
  the arithmetic of the tensor's dtype, that arithmetic is a parameter of the function.
  Indices produced by \<^verbatim>\<open>argmax\<close> and vocabulary indices are natural numbers; the
  \<^verbatim>\<open>lengths\<close> argument is a Python sequence of ints.
\<close>

type_synonym vec = "real list"
type_synonym tensor2 = "real list list"
type_synonym tensor3 = "real list list list"
type_synonym Sentence = "string list"
type_synonym Sentences = "string list list"

text \<open>The exceptions that the modelled code (or the tensor library under it) raises.\<close>

datatype error =
    ConfigurationError  \<comment> \<open>\<^verbatim>\<open>ValueError("Not using BiLSTM but Embedding is set to use BiLSTM")\<close>\<close>
  | RuntimeError        \<comment> \<open>raised by the tensor library\<close>
  | IndexError
  | KeyError
  | ValueError
  | AttributeError
  | TypeError
  | AssertionError
  | ZeroDivisionError

text \<open>
  \<^verbatim>\<open>core.VocabMap\<close>: the two dictionaries and the reserved entries that
  \<^verbatim>\<open>model.py\<close> reads from it.
\<close>

record VocabMap =
  w2i :: "string \<rightharpoonup> nat"
  i2w :: "nat \<rightharpoonup> string"
  PAD_ID :: nat
  UNK_ID :: nat
  SOS_ID :: nat
  EOS_ID :: nat
  EOS :: string
  len :: nat  \<comment> \<open>\<^verbatim>\<open>len(vocab_map)\<close>, the number of entries\<close>

subsection \<open>Tensor helpers\<close>

text \<open>
  \<^verbatim>\<open>t.argmax()\<close> over one feature vector: the index of the first maximal entry; the
  library raises on a vector with no entries.
\<close>

fun argmax_scan :: "real \<Rightarrow> nat \<Rightarrow> nat \<Rightarrow> real list \<Rightarrow> nat" where
  "argmax_scan best bi i [] = bi"
| "argmax_scan best bi i (x # xs) =
     (if best < x then argmax_scan x i (Suc i) xs else argmax_scan best bi (Suc i) xs)"

definition argmax :: "vec \<Rightarrow> error + nat" where
  "argmax v = (case v of [] \<Rightarrow> Inl IndexError | x # xs \<Rightarrow> Inr (argmax_scan x 0 1 xs))"

text \<open>Run a fallible function over a list, left to right, stopping at the first error.\<close>

fun traverse :: "('a \<Rightarrow> error + 'b) \<Rightarrow> 'a list \<Rightarrow> error + 'b list" where
  "traverse f [] = Inr []"
| "traverse f (x # xs) =
     (case f x of
        Inl e \<Rightarrow> Inl e
      | Inr y \<Rightarrow> (case traverse f xs of Inl e \<Rightarrow> Inl e | Inr ys \<Rightarrow> Inr (y # ys)))"

text \<open>\<^verbatim>\<open>t.argmax(dim=2)\<close> on a rank-3 tensor, then \<^verbatim>\<open>.tolist()\<close>.\<close>

definition argmax_dim2 :: "tensor3 \<Rightarrow> error + nat list list" where
  "argmax_dim2 t = traverse (traverse argmax) t"

section \<open>\<^verbatim>\<open>Tagger.postprocess\<close>\<close>

text \<open>
  The inner generator of \<^verbatim>\<open>Tagger.postprocess\<close> for sentence \<open>sent_idx\<close>: it walks
  \<^verbatim>\<open>enumerate(sent)\<close>, evaluates the filter \<^verbatim>\<open>token_count < lengths[sent_idx]\<close>
  (an \<^verbatim>\<open>IndexError\<close> when \<open>lengths\<close> is too short) and, where it holds, looks the tag
  index up in \<^verbatim>\<open>i2w\<close> (a \<^verbatim>\<open>KeyError\<close> when the index is absent).
\<close>

fun tag_sentence :: "(nat \<rightharpoonup> string) \<Rightarrow> int list \<Rightarrow> nat \<Rightarrow> nat \<Rightarrow> nat list \<Rightarrow> error + string list" where
  "tag_sentence iw lengths sent_idx token_count [] = Inr []"
| "tag_sentence iw lengths sent_idx token_count (tag_idx # rest) =
     (if length lengths \<le> sent_idx then Inl IndexError
      else if int token_count < lengths ! sent_idx then
        (case iw tag_idx of
           None \<Rightarrow> Inl KeyError
         | Some w \<Rightarrow>
             (case tag_sentence iw lengths sent_idx (Suc token_count) rest of
                Inl e \<Rightarrow> Inl e
              | Inr ws \<Rightarrow> Inr (w # ws)))
      else tag_sentence iw lengths sent_idx (Suc token_count) rest)"

text \<open>The outer comprehension over \<^verbatim>\<open>enumerate(idxs)\<close>.\<close>

fun tag_sentences :: "(nat \<rightharpoonup> string) \<Rightarrow> int list \<Rightarrow> nat \<Rightarrow> nat list list \<Rightarrow> error + string list list" where
  "tag_sentences iw lengths sent_idx [] = Inr []"
| "tag_sentences iw lengths sent_idx (sent # rest) =
     (case tag_sentence iw lengths sent_idx 0 sent of
        Inl e \<Rightarrow> Inl e
      | Inr ts \<Rightarrow>
          (case tag_sentences iw lengths (Suc sent_idx) rest of
             Inl e \<Rightarrow> Inl e
           | Inr tss \<Rightarrow> Inr (ts # tss)))"

definition Tagger_postprocess :: "VocabMap \<Rightarrow> tensor3 \<Rightarrow> int list \<Rightarrow> error + string list list" where
  "Tagger_postprocess vm batch lengths =
     (case argmax_dim2 batch of
        Inl e \<Rightarrow> Inl e
      | Inr idxs \<Rightarrow> tag_sentences (i2w vm) lengths 0 idxs)"

text \<open>A rank-3 tensor of shape \<open>(b, s, f)\<close>.\<close>

definition has_shape3 :: "tensor3 \<Rightarrow> nat \<Rightarrow> nat \<Rightarrow> nat \<Rightarrow> bool" where
  "has_shape3 t b s f \<longleftrightarrow>
     length t = b \<and> (\<forall>sent \<in> set t. length sent = s \<and> (\<forall>v \<in> set sent. length v = f))"


subsection \<open>The tagging scenario of the specification\<close>

text \<open>
  A tag vocabulary of seven entries (the four reserved ones, then \<open>fn\<close>, \<open>sfg3en\<close>,
  \<open>no\<close>) and logits of shape \<open>(2, 3, 7)\<close> for a batch of a three-token and a
  one-token sentence, lengths \<open>[3, 1]\<close>.
\<close>

definition tag_vocab :: VocabMap where
  "tag_vocab = \<lparr> w2i = [''<pad>'' \<mapsto> 0, ''<unk>'' \<mapsto> 1, ''<s>'' \<mapsto> 2, ''</s>'' \<mapsto> 3,
                         ''fn'' \<mapsto> 4, ''sfg3en'' \<mapsto> 5, ''no'' \<mapsto> 6],
                  i2w = [0 \<mapsto> ''<pad>'', 1 \<mapsto> ''<unk>'', 2 \<mapsto> ''<s>'', 3 \<mapsto> ''</s>'',
                         4 \<mapsto> ''fn'', 5 \<mapsto> ''sfg3en'', 6 \<mapsto> ''no''],
                  PAD_ID = 0, UNK_ID = 1, SOS_ID = 2, EOS_ID = 3, EOS = ''</s>'', len = 7 \<rparr>"

definition scenario_logits :: tensor3 where
  "scenario_logits =
     [[[0,0,0,0,9,1,2], [0,0,0,0,1,9,2], [0,0,0,0,1,2,9]],
      [[0,0,0,0,9,1,2], [7,0,0,0,0,0,0], [0,7,0,0,0,0,0]]]"

subsection \<open>\<^verbatim>\<open>Tagger.postprocess\<close> over a store of objects\<close>

text \<open>
  To see what a call does to the objects it is given, the method is also written over a
  store: the objects live in a list, a reference is a position in it, and a new object
  is appended.  The kinds of object are those the method meets: the logits tensor, the
  index tensor that \<^verbatim>\<open>argmax\<close> builds, the nested list that \<^verbatim>\<open>tolist\<close> builds, the
  \<^verbatim>\<open>lengths\<close> sequence, the dictionary \<^verbatim>\<open>i2w\<close>, and the tuple of tag tuples that is
  returned.
\<close>

datatype object =
    Tensor tensor3
  | IndexTensor "nat list list"
  | NestedList "nat list list"
  | IntSeq "int list"
  | Dict "nat \<rightharpoonup> string"
  | Tuples "string list list"

type_synonym heap = "object list"

text \<open>
  A statement takes the store and gives a value or an exception, and the store it leaves.
  \<^verbatim>\<open>ret\<close> and \<^verbatim>\<open>raise\<close> leave the store alone, \<open>bind_prog\<close> runs one statement after
  another (an exception ends the run with the store reached so far).
\<close>

type_synonym 'a prog = "heap \<Rightarrow> (error + 'a) \<times> heap"

definition ret :: "'a \<Rightarrow> 'a prog" where
  "ret x h = (Inr x, h)"

definition raise :: "error \<Rightarrow> 'a prog" where
  "raise e h = (Inl e, h)"

definition bind_prog :: "'a prog \<Rightarrow> ('a \<Rightarrow> 'b prog) \<Rightarrow> 'b prog" where
  "bind_prog m f h = (case m h of (Inl e, h') \<Rightarrow> (Inl e, h') | (Inr x, h') \<Rightarrow> f x h')"

text \<open>
  The three accesses to the store: reading the object at a reference, creating an object
  (its reference is returned), and overwriting the object at a reference.  A reference of
  a running program always points into the store; for any other position the model
  raises, so that it is total.
\<close>

definition load :: "nat \<Rightarrow> object prog" where
  "load r h = (if r < length h then (Inr (h ! r), h) else (Inl RuntimeError, h))"

definition alloc :: "object \<Rightarrow> nat prog" where
  "alloc obj h = (Inr (length h), h @ [obj])"

definition store :: "nat \<Rightarrow> object \<Rightarrow> unit prog" where
  "store r obj h = (if r < length h then (Inr (), h[r := obj]) else (Inl RuntimeError, h))"

text \<open>
  \<^verbatim>\<open>batch.argmax(dim=2)\<close> reads the tensor and creates the index tensor;
  \<^verbatim>\<open>.tolist()\<close> reads that and creates a nested list.  The method is called with a
  tensor; an object of another kind in its place has no such method.
\<close>

definition tensor_argmax :: "nat \<Rightarrow> nat prog" where
  "tensor_argmax r =
     bind_prog (load r) (\<lambda>obj.
       case obj of
         Tensor t \<Rightarrow> (case argmax_dim2 t of Inl e \<Rightarrow> raise e | Inr idxs \<Rightarrow> alloc (IndexTensor idxs))
       | _ \<Rightarrow> raise AttributeError)"

definition tensor_tolist :: "nat \<Rightarrow> nat prog" where
  "tensor_tolist r =
     bind_prog (load r) (\<lambda>obj.
       case obj of
         IndexTensor idxs \<Rightarrow> alloc (NestedList idxs)
       | _ \<Rightarrow> raise AttributeError)"

text \<open>
  \<^verbatim>\<open>lengths[sent_idx]\<close> and \<^verbatim>\<open>self.vocab_map.i2w[tag_idx]\<close>: each reads its object
  from the store at the moment of the access.  The method is called with a sequence of
  integers and a dictionary; an object of another kind in their place is a
  \<^verbatim>\<open>TypeError\<close> in the model.
\<close>

definition seq_getitem :: "nat \<Rightarrow> nat \<Rightarrow> int prog" where
  "seq_getitem r i =
     bind_prog (load r) (\<lambda>obj.
       case obj of
         IntSeq xs \<Rightarrow> if i < length xs then ret (xs ! i) else raise IndexError
       | _ \<Rightarrow> raise TypeError)"

definition dict_getitem :: "nat \<Rightarrow> nat \<Rightarrow> string prog" where
  "dict_getitem r k =
     bind_prog (load r) (\<lambda>obj.
       case obj of
         Dict d \<Rightarrow> (case d k of None \<Rightarrow> raise KeyError | Some w \<Rightarrow> ret w)
       | _ \<Rightarrow> raise TypeError)"

text \<open>
  The inner generator and the outer comprehension, statement by statement: for every
  token the filter reads \<^verbatim>\<open>lengths[sent_idx]\<close>, and where it holds the tag is read from
  \<^verbatim>\<open>i2w\<close>.
\<close>

fun tag_sentence_store :: "nat \<Rightarrow> nat \<Rightarrow> nat \<Rightarrow> nat \<Rightarrow> nat list \<Rightarrow> string list prog" where
  "tag_sentence_store i2w_ref lengths_ref sent_idx token_count [] = ret []"
| "tag_sentence_store i2w_ref lengths_ref sent_idx token_count (tag_idx # rest) =
     bind_prog (seq_getitem lengths_ref sent_idx) (\<lambda>l.
       if int token_count < l then
         bind_prog (dict_getitem i2w_ref tag_idx) (\<lambda>w.
         bind_prog (tag_sentence_store i2w_ref lengths_ref sent_idx (Suc token_count) rest) (\<lambda>ws.
           ret (w # ws)))
       else tag_sentence_store i2w_ref lengths_ref sent_idx (Suc token_count) rest)"

fun tag_sentences_store :: "nat \<Rightarrow> nat \<Rightarrow> nat \<Rightarrow> nat list list \<Rightarrow> string list list prog" where
  "tag_sentences_store i2w_ref lengths_ref sent_idx [] = ret []"
| "tag_sentences_store i2w_ref lengths_ref sent_idx (sent # rest) =
     bind_prog (tag_sentence_store i2w_ref lengths_ref sent_idx 0 sent) (\<lambda>ts.
     bind_prog (tag_sentences_store i2w_ref lengths_ref (Suc sent_idx) rest) (\<lambda>tss.
       ret (ts # tss)))"

text \<open>
  \<^verbatim>\<open>Tagger.postprocess\<close> on the references of \<^verbatim>\<open>self.vocab_map.i2w\<close>, \<^verbatim>\<open>batch\<close> and
  \<^verbatim>\<open>lengths\<close>: it returns the reference of the new tuple of tag tuples.
\<close>

definition Tagger_postprocess_store :: "nat \<Rightarrow> nat \<Rightarrow> nat \<Rightarrow> nat prog" where
  "Tagger_postprocess_store i2w_ref batch_ref lengths_ref =
     bind_prog (tensor_argmax batch_ref) (\<lambda>index_tensor.
     bind_prog (tensor_tolist index_tensor) (\<lambda>idxs_ref.
     bind_prog (load idxs_ref) (\<lambda>obj.
       case obj of
         NestedList idxs \<Rightarrow>
           bind_prog (tag_sentences_store i2w_ref lengths_ref 0 idxs) (\<lambda>tags. alloc (Tuples tags))
       | _ \<Rightarrow> raise TypeError)))"

text \<open>
  What the caller holds after a run: the exception, or the object at the returned
  reference.  A statement reads only when it leaves every store as it found it.
\<close>

definition returned :: "(error + nat) \<times> heap \<Rightarrow> error + object" where
  "returned out = (case out of (Inl e, h) \<Rightarrow> Inl e | (Inr a, h) \<Rightarrow> Inr (h ! a))"

definition reads_only :: "'a prog \<Rightarrow> bool" where
  "reads_only m \<longleftrightarrow> (\<forall>h. snd (m h) = h)"

text \<open>The store of the tagging scenario: the dictionary, the logits and the lengths.\<close>

definition tagging_store :: heap where
  "tagging_store = [Dict (i2w tag_vocab), Tensor scenario_logits, IntSeq [3, 1]]"

section \<open>\<^verbatim>\<open>GRUDecoder\<close>: postprocessing\<close>

text \<open>\<^verbatim>\<open>self.illegal_chars_output = {SOS_ID, PAD_ID, UNK_ID}\<close>.\<close>

definition illegal_chars_output :: "VocabMap \<Rightarrow> nat set" where
  "illegal_chars_output vm = {SOS_ID vm, PAD_ID vm, UNK_ID vm}"

text \<open>\<^verbatim>\<open>d[k]\<close> on a dictionary: a \<^verbatim>\<open>KeyError\<close> when the key is absent.\<close>

definition dict_get :: "('k \<rightharpoonup> 'v) \<Rightarrow> 'k \<Rightarrow> error + 'v" where
  "dict_get d k = (case d k of None \<Rightarrow> Inl KeyError | Some v \<Rightarrow> Inr v)"

text \<open>\<^verbatim>\<open>xs.index(x)\<close>: the first position of \<open>x\<close>, a \<^verbatim>\<open>ValueError\<close> when there is none.\<close>

fun list_index :: "'a list \<Rightarrow> 'a \<Rightarrow> error + nat" where
  "list_index [] x = Inl ValueError"
| "list_index (y # ys) x =
     (if y = x then Inr 0
      else (case list_index ys x of Inl e \<Rightarrow> Inl e | Inr n \<Rightarrow> Inr (Suc n)))"

text \<open>
  \<^verbatim>\<open>map_lemma_from_char_idx\<close>: the comprehension filters the illegal indices out and
  looks the others up in \<^verbatim>\<open>i2w\<close>; when the \<^verbatim>\<open>EOS\<close> symbol is among the
  characters the list is cut at its first position; the characters are joined.
\<close>

definition map_lemma_from_char_idx :: "VocabMap \<Rightarrow> nat list \<Rightarrow> error + string" where
  "map_lemma_from_char_idx vm char_idxs =
     (case traverse (dict_get (i2w vm))
             (filter (\<lambda>char_idx. char_idx \<notin> illegal_chars_output vm) char_idxs) of
        Inl e \<Rightarrow> Inl e
      | Inr chars \<Rightarrow>
          if EOS vm \<in> set chars then
            (case list_index chars (EOS vm) of
               Inl e \<Rightarrow> Inl e
             | Inr eos_idx \<Rightarrow> Inr (concat (take eos_idx chars)))
          else Inr (concat chars))"

text \<open>
  \<^verbatim>\<open>map_sentence_chars\<close>: \<^verbatim>\<open>for tok_num in range(sent_length)\<close>, reading
  \<^verbatim>\<open>sent[tok_num]\<close> (an \<^verbatim>\<open>IndexError\<close> past the end of the sentence).
\<close>

definition map_sentence_chars :: "VocabMap \<Rightarrow> nat list list \<Rightarrow> int \<Rightarrow> error + string list" where
  "map_sentence_chars vm sent sent_length =
     traverse (\<lambda>tok_num. if tok_num < length sent
                          then map_lemma_from_char_idx vm (sent ! tok_num)
                          else Inl IndexError)
       [0 ..< nat sent_length]"

text \<open>
  \<^verbatim>\<open>char_preds.view(size=(len(lengths), -1, char_preds.shape[-1]))\<close>: the \<open>n\<close> rows of
  \<open>char_preds\<close> are regrouped into \<open>b\<close> sentences of \<open>n div b\<close> tokens; the library
  raises when the inferred dimension is ambiguous or the sizes do not divide.  A tensor
  without rows (its row width, which the nested list does not show, taken as positive) is
  viewed as \<open>b\<close> sentences without tokens.
\<close>

definition view_sentences :: "nat \<Rightarrow> nat list list \<Rightarrow> error + nat list list list" where
  "view_sentences b char_preds =
     (let n = length char_preds;
          c = (case char_preds of [] \<Rightarrow> 0 | row # _ \<Rightarrow> length row)
      in if b = 0 then Inl RuntimeError
         else if n = 0 then Inr (replicate b [])
         else if c = 0 \<or> n mod b \<noteq> 0 then Inl RuntimeError
         else Inr (map (\<lambda>i. take (n div b) (drop (i * (n div b)) char_preds)) [0 ..< b]))"

text \<open>\<^verbatim>\<open>GRUDecoder.postprocess\<close>, on logits of shape \<open>(sentences * tokens, chars, vocabulary)\<close>.\<close>

definition GRUDecoder_postprocess :: "VocabMap \<Rightarrow> tensor3 \<Rightarrow> int list \<Rightarrow> error + string list list" where
  "GRUDecoder_postprocess vm batch lengths =
     (case argmax_dim2 batch of
        Inl e \<Rightarrow> Inl e
      | Inr char_preds \<Rightarrow>
          (case view_sentences (length lengths) char_preds of
             Inl e \<Rightarrow> Inl e
           | Inr as_list \<Rightarrow>
               traverse (\<lambda>(sent, sent_length). map_sentence_chars vm sent sent_length)
                 (zip as_list lengths)))"

text \<open>
  The characters a lemma is assembled from, before the cut at \<^verbatim>\<open>EOS\<close>: the legal
  indices, each mapped through \<^verbatim>\<open>i2w\<close>.
\<close>

definition lemma_chars :: "VocabMap \<Rightarrow> nat list \<Rightarrow> string list" where
  "lemma_chars vm char_idxs =
     map (\<lambda>k. the (i2w vm k)) (filter (\<lambda>k. k \<notin> illegal_chars_output vm) char_idxs)"

text \<open>A small character vocabulary, and logits of shape \<open>(2, 3, 6)\<close> over it.\<close>

definition char_vocab :: VocabMap where
  "char_vocab = \<lparr> w2i = [''<pad>'' \<mapsto> 0, ''<unk>'' \<mapsto> 1, ''<s>'' \<mapsto> 2, ''</s>'' \<mapsto> 3,
                          ''a'' \<mapsto> 4, ''b'' \<mapsto> 5],
                   i2w = [0 \<mapsto> ''<pad>'', 1 \<mapsto> ''<unk>'', 2 \<mapsto> ''<s>'', 3 \<mapsto> ''</s>'',
                          4 \<mapsto> ''a'', 5 \<mapsto> ''b''],
                   PAD_ID = 0, UNK_ID = 1, SOS_ID = 2, EOS_ID = 3, EOS = ''</s>'', len = 6 \<rparr>"

definition lemma_logits :: tensor3 where
  "lemma_logits =
     [[[0,0,0,0,1,0], [0,0,0,1,0,0], [0,0,0,0,0,1]],
      [[0,0,1,0,0,0], [0,0,0,0,0,1], [0,0,0,0,1,0]]]"

section \<open>The encoder\<close>

text \<open>
  Sequencing of fallible steps: an exception raised by a step ends the computation.
\<close>

definition bind_err :: "error + 'a \<Rightarrow> ('a \<Rightarrow> error + 'b) \<Rightarrow> error + 'b" where
  "bind_err m f = (case m of Inl e \<Rightarrow> Inl e | Inr x \<Rightarrow> f x)"

text \<open>
  \<^verbatim>\<open>class Modules(Enum)\<close>: the keys of the embedding and decoder dictionaries.
\<close>

datatype Modules =
  Pretrained | Trained | MorphLex | CharactersToTokens | BiLSTM | BERT | Tagger | Lemmatizer

text \<open>
  An \<^verbatim>\<open>Embedding\<close> module, as the encoder uses it: the properties \<^verbatim>\<open>output_dim\<close>
  and \<^verbatim>\<open>to_bilstm\<close>, and \<^verbatim>\<open>forward(batch, lengths)\<close> (preprocessing and the learned
  embedding), which yields a tensor or raises.
\<close>

record Embedding =
  output_dim :: int
  to_bilstm :: bool
  forward :: "Sentences \<Rightarrow> int list \<Rightarrow> error + tensor3"

text \<open>
  The library's \<^verbatim>\<open>PackedSequence\<close>, by its contract: for every batch entry, in batch
  order, the feature vectors of its true timesteps (the padding is not stored).
\<close>

datatype PackedSequence = PackedSequence "vec list list"

fun sequences :: "PackedSequence \<Rightarrow> vec list list" where
  "sequences (PackedSequence seqs) = seqs"

text \<open>
  \<^verbatim>\<open>t.numel()\<close>, and the size of dimension 1 read off the first row.
\<close>

definition numel :: "tensor3 \<Rightarrow> nat" where
  "numel t = length (concat (concat t))"

definition size1 :: "'a list list \<Rightarrow> nat" where
  "size1 t = (case t of [] \<Rightarrow> 0 | row # _ \<Rightarrow> length row)"

text \<open>
  \<^verbatim>\<open>pack_padded_sequence(input, lengths, batch_first=True, enforce_sorted=False)\<close>: the
  batch entries are selected by the positions of \<open>lengths\<close> (an \<^verbatim>\<open>IndexError\<close> when
  there are more lengths than entries; with fewer, the first entries are packed); the
  library refuses an empty selection, a length that is not positive and a length beyond the
  padded dimension; otherwise entry \<open>i\<close> keeps its first \<open>lengths[i]\<close> timesteps.
\<close>

definition pack_padded_sequence :: "tensor3 \<Rightarrow> int list \<Rightarrow> error + PackedSequence" where
  "pack_padded_sequence input lengths =
     (if length input < length lengths then Inl IndexError
      else
        (let selected = take (length lengths) input in
         if numel selected = 0 then Inl RuntimeError
         else if \<exists>l \<in> set lengths. l \<le> 0 then Inl RuntimeError
         else if \<exists>l \<in> set lengths. int (size1 input) < l then Inl RuntimeError
         else Inr (PackedSequence (map2 (\<lambda>seq l. take (nat l) seq) selected lengths))))"

text \<open>
  \<^verbatim>\<open>pad_packed_sequence(packed, batch_first=True)\<close>: every sequence is filled up with zero
  vectors to the length of the longest sequence of the batch (no \<^verbatim>\<open>total_length\<close> is
  passed); the second component are the lengths.
\<close>

definition pad_packed_sequence :: "PackedSequence \<Rightarrow> tensor3 \<times> nat list" where
  "pad_packed_sequence packed =
     (let seqs = sequences packed;
          lengths = map length seqs;
          max_len = fold max lengths 0;
          zero = replicate (size1 (concat seqs)) 0
      in (map (\<lambda>seq. seq @ replicate (max_len - length seq) zero) seqs, lengths))"

text \<open>
  The attributes \<^verbatim>\<open>Encoder.__init__\<close> sets.  \<^verbatim>\<open>self.bilstm\<close> exists only when
  \<^verbatim>\<open>use_bilstm\<close> holds.  \<^verbatim>\<open>self.output_dim\<close> is the field \<open>encoder_output_dim\<close>.
\<close>

record Encoder =
  embeddings :: "(Modules \<times> Embedding) list"
  use_bilstm :: bool
  bilstm :: "(PackedSequence \<Rightarrow> error + PackedSequence) option"
  main_bilstm_out_dropout :: "tensor3 \<Rightarrow> tensor3"
  encoder_output_dim :: int

text \<open>
  The two sums of \<^verbatim>\<open>Encoder.__init__\<close> over \<^verbatim>\<open>self.embeddings.values()\<close>.
\<close>

definition encoder_out_dim :: "(Modules \<times> Embedding) list \<Rightarrow> int" where
  "encoder_out_dim embs = sum_list (map output_dim (filter (\<lambda>emb. \<not> to_bilstm emb) (map snd embs)))"

definition bilstm_in_dim :: "(Modules \<times> Embedding) list \<Rightarrow> int" where
  "bilstm_in_dim embs = sum_list (map output_dim (filter to_bilstm (map snd embs)))"

text \<open>
  \<^verbatim>\<open>Encoder.__init__(embeddings, main_lstm_dim, main_lstm_layers)\<close>.  The library's layer
  constructors are parameters: \<open>nn_LSTM input_size hidden_size num_layers\<close> yields the
  recurrent layer (or raises, when the library rejects the sizes), \<open>nn_Dropout\<close> is the
  dropout layer.  The loop over \<^verbatim>\<open>named_parameters()\<close> initialises weights and has no
  branch that a parameter of an LSTM reaches with an error.
\<close>

definition Encoder_init ::
  "(int \<Rightarrow> int \<Rightarrow> int \<Rightarrow> error + (PackedSequence \<Rightarrow> error + PackedSequence)) \<Rightarrow> (tensor3 \<Rightarrow> tensor3) \<Rightarrow>
   (Modules \<times> Embedding) list \<Rightarrow> int \<Rightarrow> int \<Rightarrow> error + Encoder" where
  "Encoder_init nn_LSTM nn_Dropout embs main_lstm_dim main_lstm_layers =
     (let use = (main_lstm_layers \<noteq> 0) in
      if bilstm_in_dim embs \<noteq> 0 \<and> \<not> use then Inl ConfigurationError
      else if use then
        bind_err (nn_LSTM (bilstm_in_dim embs) main_lstm_dim main_lstm_layers) (\<lambda>lstm.
          Inr \<lparr> embeddings = embs, use_bilstm = use, bilstm = Some lstm,
                main_bilstm_out_dropout = nn_Dropout,
                encoder_output_dim = encoder_out_dim embs + main_lstm_dim * 2 \<rparr>)
      else
        Inr \<lparr> embeddings = embs, use_bilstm = use, bilstm = None,
              main_bilstm_out_dropout = nn_Dropout,
              encoder_output_dim = encoder_out_dim embs \<rparr>)"

text \<open>
  \<^verbatim>\<open>torch.cat(tensors, dim=2)\<close>: the tensors must agree in the first two dimensions; an
  empty list is refused.
\<close>

definition cat2_dim2 :: "tensor3 \<Rightarrow> tensor3 \<Rightarrow> error + tensor3" where
  "cat2_dim2 a b =
     (if length a = length b \<and> list_all2 (\<lambda>x y. length x = length y) a b
      then Inr (map2 (map2 (@)) a b)
      else Inl RuntimeError)"

fun cat_dim2 :: "tensor3 list \<Rightarrow> error + tensor3" where
  "cat_dim2 [] = Inl RuntimeError"
| "cat_dim2 [t] = Inr t"
| "cat_dim2 (t # ts) = bind_err (cat_dim2 ts) (\<lambda>r. cat2_dim2 t r)"

text \<open>
  The truth value of a tensor, as \<^verbatim>\<open>if embs:\<close> takes it: the library answers for a tensor
  of exactly one element (is it nonzero?) and raises \<^verbatim>\<open>RuntimeError\<close> for any other.
\<close>

definition tensor_bool :: "tensor3 \<Rightarrow> error + bool" where
  "tensor_bool t = (case concat (concat t) of [x] \<Rightarrow> Inr (x \<noteq> 0) | _ \<Rightarrow> Inl RuntimeError)"

text \<open>
  \<^verbatim>\<open>x = None; if tensors: x = torch.cat(tensors, dim=2)\<close>.
\<close>

definition cat_if_any :: "tensor3 list \<Rightarrow> error + tensor3 option" where
  "cat_if_any ts = (if ts \<noteq> [] then bind_err (cat_dim2 ts) (\<lambda>t. Inr (Some t)) else Inr None)"

text \<open>
  \<^verbatim>\<open>Encoder.forward(batch, lengths)\<close>.  The result is \<open>None\<close> when no embedding
  contributes.
\<close>

definition Encoder_forward :: "Encoder \<Rightarrow> Sentences \<Rightarrow> int list \<Rightarrow> error + tensor3 option" where
  "Encoder_forward self batch lengths =
     bind_err (traverse (\<lambda>emb. forward emb batch lengths)
                 (filter to_bilstm (map snd (embeddings self)))) (\<lambda>list_to_bilstm.
     bind_err (cat_if_any list_to_bilstm) (\<lambda>embs_to_bilstm.
     bind_err (traverse (\<lambda>emb. forward emb batch lengths)
                 (filter (\<lambda>emb. \<not> to_bilstm emb) (map snd (embeddings self)))) (\<lambda>list_embs.
     bind_err (cat_if_any list_embs) (\<lambda>embs.
       if use_bilstm self \<and> embs_to_bilstm \<noteq> None then
         bind_err (pack_padded_sequence (the embs_to_bilstm) lengths) (\<lambda>packed.
         bind_err (case bilstm self of None \<Rightarrow> Inl AttributeError | Some lstm \<Rightarrow> lstm packed) (\<lambda>packed_out.
           let bilstm_out = main_bilstm_out_dropout self (fst (pad_packed_sequence packed_out)) in
           (case embs of
              None \<Rightarrow> Inr (Some bilstm_out)
            | Some e \<Rightarrow>
                bind_err (tensor_bool e) (\<lambda>truthy.
                  if truthy then bind_err (cat_dim2 [e, bilstm_out]) (\<lambda>t. Inr (Some t))
                  else Inr (Some bilstm_out)))))
       else Inr embs))))"

text \<open>
  Stand-ins for the learned parts, used in the examples: an embedding that gives every token
  of the padded batch the same vector, and a recurrent layer whose constructor refuses sizes
  that are not positive, as the library's does, and that answers every timestep with a zero
  vector of width \<open>2 * hidden_size\<close>.
\<close>

definition stub_forward :: "nat \<Rightarrow> real \<Rightarrow> Sentences \<Rightarrow> int list \<Rightarrow> error + tensor3" where
  "stub_forward d x batch lengths =
     Inr (map (\<lambda>sent. replicate (fold max (map length batch) 0) (replicate d x)) batch)"

definition stub_LSTM :: "int \<Rightarrow> int \<Rightarrow> int \<Rightarrow> error + (PackedSequence \<Rightarrow> error + PackedSequence)" where
  "stub_LSTM input_size hidden_size num_layers =
     (if input_size \<le> 0 \<or> hidden_size \<le> 0 \<or> num_layers \<le> 0 then Inl ValueError
      else Inr (\<lambda>packed. Inr (PackedSequence
                  (map (map (\<lambda>v. replicate (nat (2 * hidden_size)) 0)) (sequences packed)))))"

text \<open>
  Three embeddings: one routed to the shared recurrent layer, one concatenated directly,
  and a routed one of output dimension zero.
\<close>

definition routed_embedding :: Embedding where
  "routed_embedding = \<lparr> output_dim = 2, to_bilstm = True, forward = stub_forward 2 1 \<rparr>"

definition direct_embedding :: Embedding where
  "direct_embedding = \<lparr> output_dim = 2, to_bilstm = False, forward = stub_forward 2 1 \<rparr>"

definition zero_dim_embedding :: Embedding where
  "zero_dim_embedding = \<lparr> output_dim = 0, to_bilstm = True, forward = stub_forward 0 1 \<rparr>"

section \<open>\<^verbatim>\<open>pack_sequence\<close> and \<^verbatim>\<open>unpack_sequence\<close>\<close>

text \<open>
  \<^verbatim>\<open>pack_sequence(padded_sequence)\<close>: the squares are summed over the features, the
  timesteps with a nonzero sum are counted per sequence, and the tensor is packed by these
  counts.  The sum of squares is computed in the arithmetic of the tensor's dtype, where the
  square of a small nonzero entry can underflow to zero; that arithmetic is the parameter
  \<open>sum_squares\<close>, the value of \<^verbatim>\<open>torch.sum(torch.pow(v, 2))\<close> for the feature vector
  \<open>v\<close> of one timestep.
\<close>

definition pack_sequence :: "(vec \<Rightarrow> real) \<Rightarrow> tensor3 \<Rightarrow> error + (PackedSequence \<times> int list)" where
  "pack_sequence sum_squares padded_sequence =
     (let lengths = map (\<lambda>seq. int (length (filter (\<lambda>v. sum_squares v \<noteq> 0) seq))) padded_sequence
      in bind_err (pack_padded_sequence padded_sequence lengths) (\<lambda>packed. Inr (packed, lengths)))"

text \<open>
  Two instances of that arithmetic: the exact one, and one in which a square below
  \<open>10\<^sup>-\<^sup>4\<^sup>5\<close> is flushed to zero, as single precision does.
\<close>

definition exact_sum_squares :: "vec \<Rightarrow> real" where
  "exact_sum_squares v = sum_list (map (\<lambda>x. x ^ 2) v)"

definition flushing_sum_squares :: "vec \<Rightarrow> real" where
  "flushing_sum_squares v = sum_list (map (\<lambda>x. if x ^ 2 < 1 / 10 ^ 45 then 0 else x ^ 2) v)"

text \<open>
  \<^verbatim>\<open>unpack_sequence(packed_sequence)\<close>.
\<close>

definition unpack_sequence :: "PackedSequence \<Rightarrow> tensor3" where
  "unpack_sequence packed_sequence = fst (pad_packed_sequence packed_sequence)"

text \<open>
  A batch-first tensor of shape \<open>(length ns, s, f)\<close> padded at the right: sequence \<open>i\<close>
  has \<open>ns[i]\<close> true timesteps, each with a nonzero entry, followed by zero vectors.
\<close>

definition right_padded :: "tensor3 \<Rightarrow> nat \<Rightarrow> nat \<Rightarrow> nat list \<Rightarrow> bool" where
  "right_padded x s f ns \<longleftrightarrow>
     has_shape3 x (length ns) s f \<and>
     (\<forall>i<length ns. ns ! i \<le> s \<and>
        (\<forall>t<ns ! i. \<exists>k<f. x ! i ! t ! k \<noteq> 0) \<and>
        (\<forall>t. ns ! i \<le> t \<and> t < s \<longrightarrow> x ! i ! t = replicate f 0))"

definition padded_example :: tensor3 where
  "padded_example = [[[1, 2], [0, 0]], [[0, 3], [4, 0]]]"

definition tiny_example :: tensor3 where
  "tiny_example = [[[1 / 10 ^ 30], [0]], [[1], [2]]]"

section \<open>\<^verbatim>\<open>GRUDecoder\<close>: decoding\<close>

text \<open>
  The batch dictionary, keyed by \<^verbatim>\<open>BATCH_KEYS\<close>: a key is in the dictionary when its
  field is not \<open>None\<close>.  \<^verbatim>\<open>TARGET_LEMMAS\<close> has shape \<open>(sentences * tokens, chars)\<close>.
\<close>

record Batch =
  TOKENS :: "Sentences option"
  LENGTHS :: "int list option"
  LEMMAS :: "Sentences option"
  FULL_TAGS :: "Sentences option"
  TARGET_LEMMAS :: "nat list list option"
  TARGET_FULL_TAGS :: "nat list list option"

text \<open>
  \<^verbatim>\<open>batch[KEY]\<close>.
\<close>

definition batch_item :: "'a option \<Rightarrow> error + 'a" where
  "batch_item entry = (case entry of None \<Rightarrow> Inl KeyError | Some v \<Rightarrow> Inr v)"

text \<open>
  \<^verbatim>\<open>data.map_to_chars_batch(sentences, w2i, add_sos=...)\<close> is imported by
  \<^verbatim>\<open>model.py\<close>; the decoder takes it as a parameter.  The third argument is the keyword
  \<^verbatim>\<open>add_sos\<close>, \<open>None\<close> where the call leaves it out.  The result has shape
  \<open>(sentences * tokens, chars)\<close>.
\<close>

type_synonym chars_batch = "Sentences \<Rightarrow> (string \<rightharpoonup> nat) \<Rightarrow> bool option \<Rightarrow> error + nat list list"

text \<open>
  The decoder: its vocabulary, the teacher-forcing rate, and the learned network of one
  generation step, \<^verbatim>\<open>gru_step next_char_input context hidden\<close>, which stands for the
  embedding with dropout, the concatenation with the context, the GRU cell and the output
  projection; it returns the prediction of shape \<open>(n, 1, vocabulary)\<close> and the next hidden
  state.
\<close>

record GRUDecoder =
  vocab_map :: VocabMap
  teacher_forcing :: real
  gru_step :: "nat list \<Rightarrow> tensor2 \<Rightarrow> tensor2 \<Rightarrow> error + (tensor3 \<times> tensor2)"

text \<open>
  \<^verbatim>\<open>t[:, j]\<close> (and \<^verbatim>\<open>t[:, j, :]\<close>): a negative index counts from the end, an index
  outside dimension 1 is an \<^verbatim>\<open>IndexError\<close>.
\<close>

definition select_dim1 :: "'a list list \<Rightarrow> int \<Rightarrow> error + 'a list" where
  "select_dim1 t j =
     (let n = int (size1 t);
          pos = (if j < 0 then j + n else j)
      in if 0 \<le> pos \<and> pos < n then Inr (map (\<lambda>row. row ! nat pos) t) else Inl IndexError)"

text \<open>
  \<^verbatim>\<open>GRUDecoder._get_char_input_next_timestep\<close>.  The draws of \<^verbatim>\<open>random.random()\<close>
  are the values \<open>random 0, random 1, ...\<close>; \<open>k\<close> counts the draws made so far, and the
  function returns the new count.  A draw is made only when the batch has targets.
\<close>

definition get_char_input_next_timestep ::
  "chars_batch \<Rightarrow> (nat \<Rightarrow> real) \<Rightarrow> VocabMap \<Rightarrow> Batch \<Rightarrow> tensor3 option \<Rightarrow> real \<Rightarrow> nat
     \<Rightarrow> (error + nat list) \<times> nat" where
  "get_char_input_next_timestep map_to_chars_batch random vm batch previous_predictions tf k =
     (case previous_predictions of
        None \<Rightarrow>
          (bind_err (batch_item (TOKENS batch)) (\<lambda>tokens.
           bind_err (map_to_chars_batch tokens (w2i vm) None) (\<lambda>chars.
             select_dim1 chars 0)), k)
      | Some predictions \<Rightarrow>
          (let previous_timestep = int (size1 predictions) - 1 in
           case TARGET_LEMMAS batch of
             Some target \<Rightarrow>
               if random k < tf then (select_dim1 target previous_timestep, Suc k)
               else (bind_err (select_dim1 predictions previous_timestep) (traverse argmax), Suc k)
           | None \<Rightarrow>
               (bind_err (select_dim1 predictions previous_timestep) (traverse argmax), k)))"

text \<open>
  \<^verbatim>\<open>torch.cat((predictions, prediction), dim=1)\<close>.
\<close>

definition cat_dim1 :: "tensor3 \<Rightarrow> tensor3 \<Rightarrow> error + tensor3" where
  "cat_dim1 a b =
     (if length a = length b \<and> size1 (concat a) = size1 (concat b)
      then Inr (map2 (@) a b)
      else Inl RuntimeError)"

text \<open>
  The state of the loop in \<^verbatim>\<open>GRUDecoder.decode\<close>: the predictions so far
  (\<open>None\<close> before the first step), the hidden state, and the count of random draws.
  \<open>decode_body\<close> is one iteration, \<open>decode_loop\<close> runs \<open>for _ in range(n)\<close>.
\<close>

type_synonym decode_state = "tensor3 option \<times> tensor2 \<times> nat"

definition decode_body ::
  "chars_batch \<Rightarrow> (nat \<Rightarrow> real) \<Rightarrow> GRUDecoder \<Rightarrow> Batch \<Rightarrow> tensor2 \<Rightarrow> decode_state \<Rightarrow> error + decode_state" where
  "decode_body map_to_chars_batch random self batch context st =
     (case st of (predictions, hidden, k) \<Rightarrow>
        (case get_char_input_next_timestep map_to_chars_batch random (vocab_map self) batch
                predictions (teacher_forcing self) k of
           (next_char, k') \<Rightarrow>
             bind_err next_char (\<lambda>next_char_input.
             bind_err (gru_step self next_char_input context hidden) (\<lambda>(prediction, hidden').
             bind_err (case predictions of
                         None \<Rightarrow> Inr prediction
                       | Some ps \<Rightarrow> cat_dim1 ps prediction) (\<lambda>predictions'.
               Inr (Some predictions', hidden', k'))))))"

fun decode_loop ::
  "chars_batch \<Rightarrow> (nat \<Rightarrow> real) \<Rightarrow> GRUDecoder \<Rightarrow> Batch \<Rightarrow> tensor2 \<Rightarrow> nat \<Rightarrow> decode_state \<Rightarrow> error + decode_state" where
  "decode_loop m2c random self batch context 0 st = Inr st"
| "decode_loop m2c random self batch context (Suc n) st =
     bind_err (decode_body m2c random self batch context st)
       (decode_loop m2c random self batch context n)"

text \<open>
  \<^verbatim>\<open>encoded.reshape(shape=(-1, encoded.shape[2]))\<close>, refused by the library for a feature
  dimension of zero; the hidden state starts as the same values.
\<close>

definition reshape_context :: "tensor3 \<Rightarrow> error + tensor2" where
  "reshape_context encoded =
     (if size1 (concat encoded) = 0 then Inl RuntimeError else Inr (concat encoded))"

text \<open>
  \<^verbatim>\<open>GRUDecoder.decode\<close>: with targets in the batch the loop runs once per target
  character position; without, the \<^verbatim>\<open>else: pass\<close> branch leaves \<open>predictions\<close> at
  \<open>None\<close>, which is returned.
\<close>

definition GRUDecoder_decode ::
  "chars_batch \<Rightarrow> (nat \<Rightarrow> real) \<Rightarrow> GRUDecoder \<Rightarrow> tensor3 \<Rightarrow> Batch \<Rightarrow> nat \<Rightarrow> error + (tensor3 option \<times> nat)" where
  "GRUDecoder_decode map_to_chars_batch random self encoded batch k =
     bind_err (reshape_context encoded) (\<lambda>context.
       case TARGET_LEMMAS batch of
         Some target \<Rightarrow>
           bind_err (decode_loop map_to_chars_batch random self batch context (size1 target)
                       (None, context, k))
             (\<lambda>(predictions, hidden, k'). Inr (predictions, k'))
       | None \<Rightarrow> Inr (None, k))"

text \<open>
  \<^verbatim>\<open>GRUDecoder.add_targets\<close> (the batch is returned updated) and \<^verbatim>\<open>Decoder.forward\<close>.
\<close>

definition GRUDecoder_add_targets :: "chars_batch \<Rightarrow> GRUDecoder \<Rightarrow> Batch \<Rightarrow> error + Batch" where
  "GRUDecoder_add_targets map_to_chars_batch self batch =
     (case LEMMAS batch of
        Some lemma_strs \<Rightarrow>
          bind_err (map_to_chars_batch lemma_strs (w2i (vocab_map self)) (Some False)) (\<lambda>target.
            Inr (batch\<lparr>TARGET_LEMMAS := Some target\<rparr>))
      | None \<Rightarrow> Inr batch)"

definition GRUDecoder_forward ::
  "chars_batch \<Rightarrow> (nat \<Rightarrow> real) \<Rightarrow> GRUDecoder \<Rightarrow> tensor3 \<Rightarrow> Batch \<Rightarrow> nat \<Rightarrow> error + (tensor3 option \<times> nat)" where
  "GRUDecoder_forward map_to_chars_batch random self encoded batch k =
     bind_err (GRUDecoder_add_targets map_to_chars_batch self batch) (\<lambda>batch'.
       GRUDecoder_decode map_to_chars_batch random self encoded batch' k)"

text \<open>
  A rank-2 tensor of shape \<open>(n, c)\<close>, and the shape contract of the step network: on
  \<open>n\<close> input characters that are indices of its vocabulary of size \<open>v\<close>, with a
  context and a hidden state of shape \<open>(n, h)\<close>, it yields a prediction of shape
  \<open>(n, 1, v)\<close> and a hidden state of shape \<open>(n, h)\<close>.  Outside these inputs the network
  may raise, as the embedding lookup, the concatenation and the GRU of the library do.
\<close>

definition has_shape2 :: "'a list list \<Rightarrow> nat \<Rightarrow> nat \<Rightarrow> bool" where
  "has_shape2 t n c \<longleftrightarrow> length t = n \<and> (\<forall>row \<in> set t. length row = c)"

definition net_shape :: "GRUDecoder \<Rightarrow> nat \<Rightarrow> nat \<Rightarrow> nat \<Rightarrow> bool" where
  "net_shape self n v h \<longleftrightarrow>
     (\<forall>next_char_input context hidden.
        length next_char_input = n \<and> (\<forall>c \<in> set next_char_input. c < v) \<and>
        has_shape2 context n h \<and> has_shape2 hidden n h \<longrightarrow>
        (\<exists>prediction hidden'. gru_step self next_char_input context hidden = Inr (prediction, hidden')
            \<and> has_shape3 prediction n 1 v \<and> has_shape2 hidden' n h))"

text \<open>
  The run of the loop of \<^verbatim>\<open>GRUDecoder.decode\<close> over \<open>t\<close> steps, as its proofs follow
  it: \<open>inp u\<close>, \<open>pred u\<close> and \<open>hid u\<close> are the input characters, the prediction and the
  hidden state of step \<open>u\<close>, and \<open>ps\<close> the predictions gathered so far.  Column \<open>u\<close> of
  \<open>ps\<close> is the prediction of step \<open>u\<close>; each step calls the step network on its input, the
  context and the hidden state left by the step before; the input of step 0 is column 0 of
  the character mapping of the tokens, and the input of a later step \<open>u\<close> is column \<open>u - 1\<close>
  of the targets when draw \<open>k + (u - 1)\<close> is below \<^verbatim>\<open>teacher_forcing\<close>, and the arg-max
  of column \<open>u - 1\<close> of the predictions otherwise.
\<close>

definition decode_trace ::
  "GRUDecoder \<Rightarrow> tensor2 \<Rightarrow> nat list list \<Rightarrow> nat list list \<Rightarrow> (nat \<Rightarrow> real) \<Rightarrow> nat \<Rightarrow> nat
     \<Rightarrow> (nat \<Rightarrow> nat list) \<Rightarrow> (nat \<Rightarrow> tensor3) \<Rightarrow> (nat \<Rightarrow> tensor2) \<Rightarrow> tensor3 \<Rightarrow> bool" where
  "decode_trace self ctx chars target random k t inp pred hid ps \<longleftrightarrow>
       (\<forall>i<length ps. \<forall>u<t. ps ! i ! u = pred u ! i ! 0)
     \<and> hid 0 = ctx
     \<and> (\<forall>u<t. gru_step self (inp u) ctx (hid u) = Inr (pred u, hid (Suc u)))
     \<and> inp 0 = map (\<lambda>row. row ! 0) chars
     \<and> (\<forall>u. 0 < u \<and> u < t \<longrightarrow>
           (\<exists>own. traverse argmax (map (\<lambda>row. row ! (u - 1)) ps) = Inr own
                \<and> inp u = (if random (k + (u - 1)) < teacher_forcing self
                            then map (\<lambda>row. row ! (u - 1)) target else own)))"

text \<open>
  An example: a character mapping that answers every token with the same three indices, a
  step network that predicts its own input character (and raises on an index outside the
  vocabulary or on operands of different shapes), a batch with and one without targets, and
  a random source whose first draw is \<open>0\<close> and every later one \<open>1\<close>.
\<close>

definition stub_chars :: chars_batch where
  "stub_chars sentences wi add_sos = Inr (map (\<lambda>token. [2, 4, 3]) (concat sentences))"

definition one_hot :: "nat \<Rightarrow> nat \<Rightarrow> vec" where
  "one_hot v c = map (\<lambda>i. if i = c then 1 else 0) [0 ..< v]"

definition echo_decoder :: GRUDecoder where
  "echo_decoder =
     \<lparr> vocab_map = char_vocab, teacher_forcing = 1 / 2,
       gru_step = (\<lambda>next_char_input context hidden.
                     if \<exists>c \<in> set next_char_input. len char_vocab \<le> c then Inl IndexError
                     else if length context \<noteq> length next_char_input then Inl RuntimeError
                     else if length hidden \<noteq> length next_char_input \<or> size1 hidden \<noteq> size1 context
                       then Inl RuntimeError
                     else Inr (map (\<lambda>c. [one_hot (len char_vocab) c]) next_char_input, hidden)) \<rparr>"

definition training_batch :: Batch where
  "training_batch =
     \<lparr> TOKENS = Some [[''ab'']], LENGTHS = Some [1], LEMMAS = Some [[''ab'']], FULL_TAGS = None,
       TARGET_LEMMAS = Some [[4, 5, 3]], TARGET_FULL_TAGS = None \<rparr>"

definition inference_batch :: Batch where
  "inference_batch =
     \<lparr> TOKENS = Some [[''ab'']], LENGTHS = Some [1], LEMMAS = None, FULL_TAGS = None,
       TARGET_LEMMAS = None, TARGET_FULL_TAGS = None \<rparr>"

definition coin :: "nat \<Rightarrow> real" where
  "coin k = (if k = 0 then 0 else 1)"

section \<open>\<^verbatim>\<open>ClassingWordEmbedding\<close>: the lookup table\<close>

text \<open>
  The library's \<^verbatim>\<open>nn.Embedding(num_embeddings, embedding_dim, padding_idx)\<close>: the
  table is filled with normal draws (\<open>normal i j\<close> is the draw for row \<open>i\<close>, column
  \<open>j\<close>), then the row at \<open>padding_idx\<close> is set to zero.  A negative index counts
  from the end; an index outside the table fails the library's assertion.
\<close>

definition nn_Embedding :: "(nat \<Rightarrow> nat \<Rightarrow> real) \<Rightarrow> nat \<Rightarrow> nat \<Rightarrow> int option \<Rightarrow> error + tensor2" where
  "nn_Embedding normal num_embeddings embedding_dim padding_idx =
     (let weight = map (\<lambda>i. map (normal i) [0 ..< embedding_dim]) [0 ..< num_embeddings] in
      case padding_idx of
        None \<Rightarrow> Inr weight
      | Some p \<Rightarrow>
          if 0 < p \<and> \<not> p < int num_embeddings then Inl AssertionError
          else if p < 0 \<and> \<not> - int num_embeddings \<le> p then Inl AssertionError
          else
            (let pos = nat (if p < 0 then int num_embeddings + p else p) in
             if pos < num_embeddings then Inr (weight[pos := replicate embedding_dim 0])
             else Inl IndexError))"

text \<open>
  \<^verbatim>\<open>nn.init.xavier_uniform_\<close> on a matrix of \<open>rows\<close> by \<open>cols\<close> entries (gain 1):
  \<open>fan_in\<close> is the number of columns, \<open>fan_out\<close> the number of rows, the standard
  deviation is \<open>sqrt (2 / (fan_in + fan_out))\<close> and every entry is overwritten by a
  uniform draw from \<open>[-a, a)\<close> with \<open>a = sqrt 3 * std\<close>; \<open>uniform i j\<close> is the
  draw from \<open>[0, 1)\<close> behind entry \<open>(i, j)\<close>.
\<close>

definition xavier_bound :: "nat \<Rightarrow> nat \<Rightarrow> real" where
  "xavier_bound fan_in fan_out = sqrt 3 * sqrt (2 / real (fan_in + fan_out))"

definition xavier_uniform :: "(nat \<Rightarrow> nat \<Rightarrow> real) \<Rightarrow> nat \<Rightarrow> nat \<Rightarrow> error + tensor2" where
  "xavier_uniform uniform rows cols =
     (if cols + rows = 0 then Inl ZeroDivisionError
      else
        (let a = xavier_bound cols rows in
         Inr (map (\<lambda>i. map (\<lambda>j. - a + (a - (- a)) * uniform i j) [0 ..< cols]) [0 ..< rows])))"

text \<open>
  \<^verbatim>\<open>ClassingWordEmbedding.__init__(vocab_map, embedding_dim, padding_idx, pass_to_bilstm)\<close>:
  the embedding table has \<^verbatim>\<open>len(vocab_map)\<close> rows; the initialisation is applied to the
  slice \<^verbatim>\<open>weight[1:, :]\<close>, which writes through to the rows from 1 on.
\<close>

record ClassingWordEmbedding =
  word_vocab_map :: VocabMap
  pass_to_bilstm :: bool
  weight :: tensor2

definition ClassingWordEmbedding_init ::
  "(nat \<Rightarrow> nat \<Rightarrow> real) \<Rightarrow> (nat \<Rightarrow> nat \<Rightarrow> real) \<Rightarrow> VocabMap \<Rightarrow> nat \<Rightarrow> int \<Rightarrow> bool
     \<Rightarrow> error + ClassingWordEmbedding" where
  "ClassingWordEmbedding_init normal uniform vm embedding_dim padding_idx to_lstm =
     bind_err (nn_Embedding normal (len vm) embedding_dim (Some padding_idx)) (\<lambda>table.
     bind_err (xavier_uniform uniform (length (drop 1 table)) embedding_dim) (\<lambda>rows.
       Inr \<lparr> word_vocab_map = vm, pass_to_bilstm = to_lstm, weight = take 1 table @ rows \<rparr>))"

text \<open>
  Two fixed sequences of draws for the example.
\<close>

definition draws_normal :: "nat \<Rightarrow> nat \<Rightarrow> real" where
  "draws_normal i j = real (i + j) - 3 / 2"

definition draws_uniform :: "nat \<Rightarrow> nat \<Rightarrow> real" where
  "draws_uniform i j = (if even (i + j) then 0 else 1 / 2)"


section \<open>Properties\<close>

subsection \<open>Arg-max, traversal and shapes\<close>

lemma argmax_scan_spec:
  "bi < i \<Longrightarrow> length pre = i \<Longrightarrow> pre ! bi = best \<Longrightarrow> (\<forall>j<i. pre ! j \<le> best) \<Longrightarrow> (\<forall>j<bi. pre ! j < best) \<Longrightarrow>
   (let k = argmax_scan best bi i xs in
      k < i + length xs \<and> (\<forall>j < i + length xs. (pre @ xs) ! j \<le> (pre @ xs) ! k) \<and> (\<forall>j<k. (pre @ xs) ! j < (pre @ xs) ! k))"
proof (induction xs arbitrary: best bi i pre)
  case Nil
  then show ?case by (simp add: Let_def)
next
  case (Cons x xs)
  show ?case
  proof (cases "best < x")
    case True
    have "let k = argmax_scan x i (Suc i) xs in
      k < Suc i + length xs \<and> (\<forall>j < Suc i + length xs. ((pre @ [x]) @ xs) ! j \<le> ((pre @ [x]) @ xs) ! k) \<and> (\<forall>j<k. ((pre @ [x]) @ xs) ! j < ((pre @ [x]) @ xs) ! k)"
    proof (rule Cons.IH)
      show "i < Suc i" by simp
      show "length (pre @ [x]) = Suc i" using Cons.prems by simp
      show "(pre @ [x]) ! i = x" using Cons.prems by (simp add: nth_append)
      show "\<forall>j<Suc i. (pre @ [x]) ! j \<le> x" using Cons.prems True by (auto simp: nth_append less_Suc_eq)
      show "\<forall>j<i. (pre @ [x]) ! j < x" using Cons.prems True by (auto simp: nth_append)
    qed
    with True show ?thesis by (simp add: Let_def)
  next
    case False
    have "let k = argmax_scan best bi (Suc i) xs in
      k < Suc i + length xs \<and> (\<forall>j < Suc i + length xs. ((pre @ [x]) @ xs) ! j \<le> ((pre @ [x]) @ xs) ! k) \<and> (\<forall>j<k. ((pre @ [x]) @ xs) ! j < ((pre @ [x]) @ xs) ! k)"
    proof (rule Cons.IH)
      show "bi < Suc i" using Cons.prems by simp
      show "length (pre @ [x]) = Suc i" using Cons.prems by simp
      show "(pre @ [x]) ! bi = best" using Cons.prems by (simp add: nth_append)
      show "\<forall>j<Suc i. (pre @ [x]) ! j \<le> best" using Cons.prems False by (auto simp: nth_append less_Suc_eq)
      show "\<forall>j<bi. (pre @ [x]) ! j < best" using Cons.prems by (auto simp: nth_append)
    qed
    with False show ?thesis by (simp add: Let_def)
  qed
qed

lemma argmax_Inr:
  assumes "argmax v = Inr k"
  shows "k < length v \<and> (\<forall>j<length v. v ! j \<le> v ! k) \<and> (\<forall>j<k. v ! j < v ! k)"
proof (cases v)
  case Nil
  with assms show ?thesis by (simp add: argmax_def)
next
  case (Cons x xs)
  with assms have k: "k = argmax_scan x 0 1 xs" by (simp add: argmax_def)
  have "let k = argmax_scan x 0 1 xs in
      k < 1 + length xs \<and> (\<forall>j < 1 + length xs. ([x] @ xs) ! j \<le> ([x] @ xs) ! k) \<and> (\<forall>j<k. ([x] @ xs) ! j < ([x] @ xs) ! k)"
    by (rule argmax_scan_spec) simp_all
  with k Cons show ?thesis by (simp add: Let_def)
qed

lemma has_shape3_nth:
  assumes "has_shape3 t b s f" and "i < b"
  shows "length (t ! i) = s" and "j < s \<Longrightarrow> length (t ! i ! j) = f"
proof -
  from assms have m: "t ! i \<in> set t" by (simp add: has_shape3_def)
  with assms(1) show l: "length (t ! i) = s" unfolding has_shape3_def by blast
  assume "j < s"
  with l have "t ! i ! j \<in> set (t ! i)" by simp
  with m assms(1) show "length (t ! i ! j) = f" unfolding has_shape3_def by blast
qed

lemma argmax_nonempty: "v \<noteq> [] \<Longrightarrow> \<exists>k. argmax v = Inr k"
  by (cases v) (simp_all add: argmax_def)

lemma traverse_Inr:
  "(\<And>x. x \<in> set xs \<Longrightarrow> f x = Inr (g x)) \<Longrightarrow> traverse f xs = Inr (map g xs)"
  by (induction xs) simp_all

lemma traverse_length: "traverse f xs = Inr ys \<Longrightarrow> length ys = length xs"
  by (induction xs arbitrary: ys) (auto split: sum.splits)

lemma traverse_nth: "traverse f xs = Inr ys \<Longrightarrow> i < length xs \<Longrightarrow> f (xs ! i) = Inr (ys ! i)"
proof (induction xs arbitrary: ys i)
  case Nil then show ?case by simp
next
  case (Cons x xs)
  then show ?case by (cases i) (auto split: sum.splits)
qed

lemma traverse_total:
  "(\<And>x. x \<in> set xs \<Longrightarrow> \<exists>y. f x = Inr y) \<Longrightarrow> \<exists>ys. traverse f xs = Inr ys"
proof (induction xs)
  case Nil then show ?case by simp
next
  case (Cons x xs)
  then obtain y where "f x = Inr y" by auto
  moreover from Cons obtain ys where "traverse f xs = Inr ys" by auto
  ultimately show ?case by simp
qed

lemma tag_sentence_Inr:
  assumes "sent_idx < length lengths" and "\<forall>k \<in> set sent. iw k \<noteq> None"
  shows "tag_sentence iw lengths sent_idx tc sent =
           Inr (map (\<lambda>k. the (iw k)) (take (nat (lengths ! sent_idx - int tc)) sent))"
  using assms
proof (induction sent arbitrary: tc)
  case Nil then show ?case by simp
next
  case (Cons k rest)
  show ?case
  proof (cases "int tc < lengths ! sent_idx")
    case True
    then have "nat (lengths ! sent_idx - int tc) = Suc (nat (lengths ! sent_idx - int (Suc tc)))" by simp
    with True Cons show ?thesis by auto
  next
    case False
    then have "nat (lengths ! sent_idx - int tc) = 0" "nat (lengths ! sent_idx - int (Suc tc)) = 0" by simp_all
    with False Cons show ?thesis by auto
  qed
qed

lemma tag_sentences_Inr:
  assumes "i0 + length idxs \<le> length lengths" and "\<forall>sent \<in> set idxs. \<forall>k \<in> set sent. iw k \<noteq> None"
  shows "\<exists>tags. tag_sentences iw lengths i0 idxs = Inr tags \<and> length tags = length idxs \<and>
           (\<forall>i<length idxs. tags ! i = map (\<lambda>k. the (iw k)) (take (nat (lengths ! (i0 + i))) (idxs ! i)))"
  using assms
proof (induction idxs arbitrary: i0)
  case Nil then show ?case by simp
next
  case (Cons sent rest)
  have hd: "tag_sentence iw lengths i0 0 sent = Inr (map (\<lambda>k. the (iw k)) (take (nat (lengths ! i0)) sent))"
    using tag_sentence_Inr[of i0 lengths sent iw 0] Cons.prems by simp
  from Cons.IH[of "Suc i0"] Cons.prems obtain tags where
    t: "tag_sentences iw lengths (Suc i0) rest = Inr tags" "length tags = length rest"
       "\<forall>i<length rest. tags ! i = map (\<lambda>k. the (iw k)) (take (nat (lengths ! (Suc i0 + i))) (rest ! i))"
    by auto
  show ?case
  proof (intro exI conjI allI impI)
    show "tag_sentences iw lengths i0 (sent # rest) = Inr (map (\<lambda>k. the (iw k)) (take (nat (lengths ! i0)) sent) # tags)"
      using hd t(1) by simp
    show "length (map (\<lambda>k. the (iw k)) (take (nat (lengths ! i0)) sent) # tags) = length (sent # rest)"
      using t(2) by simp
    fix i assume "i < length (sent # rest)"
    then show "(map (\<lambda>k. the (iw k)) (take (nat (lengths ! i0)) sent) # tags) ! i =
        map (\<lambda>k. the (iw k)) (take (nat (lengths ! (i0 + i))) ((sent # rest) ! i))"
      using t(3) by (cases i) auto
  qed
qed

lemma argmax_dim2_Inr:
  assumes "has_shape3 t b s f" and "0 < f"
  shows "\<exists>idxs. argmax_dim2 t = Inr idxs \<and> length idxs = b \<and>
           (\<forall>i<b. length (idxs ! i) = s \<and> (\<forall>j<s. argmax (t ! i ! j) = Inr (idxs ! i ! j)))"
proof -
  have row: "\<exists>ks. traverse argmax sent = Inr ks" if "sent \<in> set t" for sent
  proof (rule traverse_total)
    fix v assume "v \<in> set sent"
    with that assms have "v \<noteq> []" by (auto simp: has_shape3_def)
    then show "\<exists>y. argmax v = Inr y" by (rule argmax_nonempty)
  qed
  then obtain idxs where idxs: "traverse (traverse argmax) t = Inr idxs"
    using traverse_total[of t "traverse argmax"] by blast
  have len: "length idxs = b"
    using traverse_length[OF idxs] assms by (simp add: has_shape3_def)
  have rows: "length (idxs ! i) = s \<and> (\<forall>j<s. argmax (t ! i ! j) = Inr (idxs ! i ! j))" if "i < b" for i
  proof -
    from that assms have i: "i < length t" by (simp add: has_shape3_def)
    have s: "length (t ! i) = s" using has_shape3_nth(1)[OF assms(1) that] .
    have r: "traverse argmax (t ! i) = Inr (idxs ! i)" using traverse_nth[OF idxs i] .
    show ?thesis using traverse_length[OF r] traverse_nth[OF r] s by simp
  qed
  show ?thesis using idxs len rows by (auto simp: argmax_dim2_def)
qed

subsection \<open>\<^verbatim>\<open>Tagger.postprocess\<close>: one tag per true token\<close>

text \<open>
  Claim C3.  For logits of shape \<open>(b, max_len, f)\<close> with \<open>f > 0\<close> whose indices all
  have an \<^verbatim>\<open>i2w\<close> entry, and a \<open>lengths\<close> sequence with one entry per sentence, each
  between \<open>0\<close> and \<open>max_len\<close>, \<^verbatim>\<open>Tagger.postprocess\<close> returns one tag sequence per
  sentence, in input order; sentence \<open>i\<close> gets exactly \<open>lengths[i]\<close> tags, and its
  \<open>j\<close>-th tag is \<^verbatim>\<open>i2w\<close> of the arg-max index of token \<open>j\<close>.  Positions from
  \<open>lengths[i]\<close> on yield no tag.
\<close>

theorem Tagger_postprocess_lengths:
  assumes shape: "has_shape3 logits b max_len f" and f: "0 < f"
    and len: "length lengths = b"
    and bounds: "\<forall>i<b. 0 \<le> lengths ! i \<and> lengths ! i \<le> int max_len"
    and vocab: "\<forall>k<f. i2w vm k \<noteq> None"
  shows "\<exists>tags. Tagger_postprocess vm logits lengths = Inr tags \<and> length tags = b \<and>
           (\<forall>i<b. length (tags ! i) = nat (lengths ! i) \<and>
              (\<forall>j<nat (lengths ! i). \<exists>k. argmax (logits ! i ! j) = Inr k \<and> i2w vm k = Some (tags ! i ! j)))"
proof -
  from argmax_dim2_Inr[OF shape f] obtain idxs where
    idxs: "argmax_dim2 logits = Inr idxs" "length idxs = b"
      "\<forall>i<b. length (idxs ! i) = max_len \<and> (\<forall>j<max_len. argmax (logits ! i ! j) = Inr (idxs ! i ! j))"
    by blast
  have inb: "idxs ! i ! j < f" if "i < b" "j < max_len" for i j
  proof -
    from idxs(3) that have a: "argmax (logits ! i ! j) = Inr (idxs ! i ! j)" by simp
    from has_shape3_nth(2)[OF shape that] have "length (logits ! i ! j) = f" .
    with argmax_Inr[OF a] show ?thesis by simp
  qed
  have dom: "\<forall>sent \<in> set idxs. \<forall>k \<in> set sent. i2w vm k \<noteq> None"
  proof (intro ballI)
    fix sent k assume "sent \<in> set idxs" "k \<in> set sent"
    then obtain i j where "i < length idxs" "sent = idxs ! i" "j < length sent" "k = sent ! j"
      by (metis in_set_conv_nth)
    with idxs(2,3) inb vocab show "i2w vm k \<noteq> None" by auto
  qed
  from tag_sentences_Inr[of 0 idxs lengths "i2w vm"] dom idxs(2) len obtain tags where
    tags: "tag_sentences (i2w vm) lengths 0 idxs = Inr tags" "length tags = length idxs"
      "\<forall>i<length idxs. tags ! i = map (\<lambda>k. the (i2w vm k)) (take (nat (lengths ! i)) (idxs ! i))"
    by auto
  have "length (tags ! i) = nat (lengths ! i) \<and>
        (\<forall>j<nat (lengths ! i). \<exists>k. argmax (logits ! i ! j) = Inr k \<and> i2w vm k = Some (tags ! i ! j))"
    if i: "i < b" for i
  proof -
    from i bounds have le: "nat (lengths ! i) \<le> max_len" by auto
    from i idxs have li: "length (idxs ! i) = max_len" by simp
    from i tags(3) idxs(2) have ti: "tags ! i = map (\<lambda>k. the (i2w vm k)) (take (nat (lengths ! i)) (idxs ! i))" by simp
    have l: "length (tags ! i) = nat (lengths ! i)" using ti li le by simp
    have "\<exists>k. argmax (logits ! i ! j) = Inr k \<and> i2w vm k = Some (tags ! i ! j)" if j: "j < nat (lengths ! i)" for j
    proof -
      from j le have jm: "j < max_len" by simp
      from idxs(3) i jm have a: "argmax (logits ! i ! j) = Inr (idxs ! i ! j)" by simp
      from inb[OF i jm] vocab obtain w where w: "i2w vm (idxs ! i ! j) = Some w" by auto
      have "tags ! i ! j = w" using ti j li le w by simp
      with a w show ?thesis by auto
    qed
    with l show ?thesis by blast
  qed
  with idxs(1,2) tags(1,2) show ?thesis by (auto simp: Tagger_postprocess_def)
qed

lemma scenario_value:
  "Tagger_postprocess tag_vocab scenario_logits [3, 1] = Inr [[''fn'', ''sfg3en'', ''no''], [''fn'']]"
  by (simp add: Tagger_postprocess_def argmax_dim2_def argmax_def tag_vocab_def scenario_logits_def)

lemma all_less_2: "(\<forall>i<2::nat. P i) \<longleftrightarrow> P 0 \<and> P 1"
  by (auto simp: less_Suc_eq numeral_2_eq_2)

text \<open>The scenario of the specification satisfies the hypotheses of C3.\<close>

theorem Tagger_postprocess_lengths_witness:
  "has_shape3 scenario_logits 2 3 7 \<and> length [3, 1 :: int] = 2 \<and>
   (\<exists>tags. Tagger_postprocess tag_vocab scenario_logits [3, 1] = Inr tags \<and> length tags = 2 \<and>
      length (tags ! 0) = 3 \<and> length (tags ! 1) = 1 \<and>
      (\<exists>k. argmax (scenario_logits ! 0 ! 2) = Inr k \<and> i2w tag_vocab k = Some (tags ! 0 ! 2)))"
proof -
  have h1: "has_shape3 scenario_logits 2 3 7" by (simp add: has_shape3_def scenario_logits_def)
  have h2: "(0::nat) < 7" by simp
  have h3: "length [3, 1 :: int] = 2" by simp
  have h4: "\<forall>i<2. 0 \<le> [3, 1 :: int] ! i \<and> [3, 1] ! i \<le> int 3" by (simp add: all_less_2)
  have h5: "\<forall>k<7. i2w tag_vocab k \<noteq> None"
  proof (intro allI impI)
    fix k :: nat assume "k < 7"
    then have "k = 0 \<or> k = 1 \<or> k = 2 \<or> k = 3 \<or> k = 4 \<or> k = 5 \<or> k = 6" by arith
    then show "i2w tag_vocab k \<noteq> None" by (auto simp: tag_vocab_def)
  qed
  from Tagger_postprocess_lengths[OF h1 h2 h3 h4 h5] obtain tags where
    t: "Tagger_postprocess tag_vocab scenario_logits [3, 1] = Inr tags" "length tags = 2"
       "\<forall>i<2. length (tags ! i) = nat ([3, 1] ! i) \<and>
              (\<forall>j<nat ([3, 1] ! i). \<exists>k. argmax (scenario_logits ! i ! j) = Inr k \<and> i2w tag_vocab k = Some (tags ! i ! j))"
    by blast
  from t(3) have a: "length (tags ! 0) = 3" "length (tags ! 1) = 1"
    and b: "\<forall>j<3. \<exists>k. argmax (scenario_logits ! 0 ! j) = Inr k \<and> i2w tag_vocab k = Some (tags ! 0 ! j)"
    by (simp_all add: all_less_2)
  from b have "\<exists>k. argmax (scenario_logits ! 0 ! 2) = Inr k \<and> i2w tag_vocab k = Some (tags ! 0 ! 2)" by simp
  with t(1,2) a h1 h3 show ?thesis by blast
qed

subsection \<open>\<^verbatim>\<open>Tagger.postprocess\<close>: repeatable\<close>

text \<open>
  A statement built from reads leaves the store as it is, and what it reads at a reference
  of the store does not depend on the objects added behind.
\<close>

lemma reads_only_ret: "reads_only (ret x)" by (simp add: reads_only_def ret_def)
lemma reads_only_raise: "reads_only (raise e)" by (simp add: reads_only_def raise_def)
lemma reads_only_load: "reads_only (load r)" by (simp add: reads_only_def load_def)

lemma reads_only_bind:
  assumes "reads_only m" and "\<And>x. reads_only (f x)"
  shows "reads_only (bind_prog m f)"
  unfolding reads_only_def
proof
  fix h
  from assms(1) have m: "snd (m h) = h" by (simp add: reads_only_def)
  show "snd (bind_prog m f h) = h"
  proof (cases "m h")
    case (Pair r h')
    with m have h': "h' = h" by simp
    show ?thesis
    proof (cases r)
      case (Inl e)
      with Pair h' show ?thesis by (simp add: bind_prog_def)
    next
      case (Inr x)
      from assms(2)[of x] have "snd (f x h) = h" by (simp add: reads_only_def)
      with Inr Pair h' show ?thesis by (simp add: bind_prog_def)
    qed
  qed
qed

lemma reads_only_seq_getitem: "reads_only (seq_getitem r i)"
  unfolding seq_getitem_def
  by (rule reads_only_bind[OF reads_only_load]) (simp add: reads_only_ret reads_only_raise split: object.split)

lemma reads_only_dict_getitem: "reads_only (dict_getitem r k)"
  unfolding dict_getitem_def
  by (rule reads_only_bind[OF reads_only_load])
     (simp add: reads_only_ret reads_only_raise split: object.split option.split)

lemma reads_only_tag_sentence: "reads_only (tag_sentence_store i l s c sent)"
proof (induction sent arbitrary: c)
  case Nil
  show ?case by (simp add: reads_only_ret)
next
  case (Cons tag_idx rest)
  show ?case
    unfolding tag_sentence_store.simps
    by (intro reads_only_bind reads_only_seq_getitem)
       (simp add: Cons.IH reads_only_bind reads_only_dict_getitem reads_only_ret)
qed

lemma reads_only_tag_sentences: "reads_only (tag_sentences_store i l s idxs)"
proof (induction idxs arbitrary: s)
  case Nil
  show ?case by (simp add: reads_only_ret)
next
  case (Cons sent rest)
  show ?case
    unfolding tag_sentences_store.simps
    by (intro reads_only_bind reads_only_tag_sentence Cons.IH reads_only_ret)
qed

lemma bind_reads:
  assumes "reads_only m"
  shows "bind_prog m f h = (case fst (m h) of Inl e \<Rightarrow> (Inl e, h) | Inr x \<Rightarrow> f x h)"
proof -
  from assms have "snd (m h) = h" by (simp add: reads_only_def)
  then show ?thesis by (cases "m h") (simp add: bind_prog_def split: sum.split)
qed

lemma seq_getitem_ext:
  "r < length h \<Longrightarrow> fst (seq_getitem r i (h @ ext)) = fst (seq_getitem r i h)"
  by (simp add: seq_getitem_def bind_prog_def load_def nth_append ret_def raise_def split: object.split)

lemma dict_getitem_ext:
  "r < length h \<Longrightarrow> fst (dict_getitem r k (h @ ext)) = fst (dict_getitem r k h)"
  by (simp add: dict_getitem_def bind_prog_def load_def nth_append ret_def raise_def
      split: object.split option.split)

lemma tag_sentence_store_ext:
  assumes "i < length h" and "l < length h"
  shows "fst (tag_sentence_store i l s c sent (h @ ext)) = fst (tag_sentence_store i l s c sent h)"
proof (induction sent arbitrary: c)
  case Nil
  show ?case by (simp add: ret_def)
next
  case (Cons tag_idx rest)
  have r: "reads_only (tag_sentence_store i l s (Suc c) rest)" by (rule reads_only_tag_sentence)
  show ?case
    unfolding tag_sentence_store.simps
    by (simp add: bind_reads[OF reads_only_seq_getitem] bind_reads[OF reads_only_dict_getitem]
        bind_reads[OF r] seq_getitem_ext[OF assms(2)] dict_getitem_ext[OF assms(1)] Cons.IH
        ret_def split: sum.split)
qed

lemma tag_sentences_store_ext:
  assumes "i < length h" and "l < length h"
  shows "fst (tag_sentences_store i l s idxs (h @ ext)) = fst (tag_sentences_store i l s idxs h)"
proof (induction idxs arbitrary: s)
  case Nil
  show ?case by (simp add: ret_def)
next
  case (Cons sent rest)
  have r: "reads_only (tag_sentences_store i l (Suc s) rest)" by (rule reads_only_tag_sentences)
  show ?case
    unfolding tag_sentences_store.simps
    by (simp add: bind_reads[OF reads_only_tag_sentence] bind_reads[OF r]
        tag_sentence_store_ext[OF assms] Cons.IH ret_def split: sum.split)
qed

lemma Tagger_postprocess_store_run:
  assumes "b < length h"
  shows "Tagger_postprocess_store i b l h =
     (case h ! b of
        Tensor t \<Rightarrow>
          (case argmax_dim2 t of
             Inl e \<Rightarrow> (Inl e, h)
           | Inr idxs \<Rightarrow>
               (case fst (tag_sentences_store i l 0 idxs (h @ [IndexTensor idxs, NestedList idxs])) of
                  Inl e \<Rightarrow> (Inl e, h @ [IndexTensor idxs, NestedList idxs])
                | Inr tags \<Rightarrow> (Inr (length h + 2), h @ [IndexTensor idxs, NestedList idxs, Tuples tags])))
      | _ \<Rightarrow> (Inl AttributeError, h))"
proof (cases "h ! b")
  case (Tensor t)
  show ?thesis
  proof (cases "argmax_dim2 t")
    case (Inl e)
    with Tensor assms show ?thesis
      by (simp add: Tagger_postprocess_store_def tensor_argmax_def bind_prog_def load_def raise_def)
  next
    case (Inr idxs)
    have a: "tensor_argmax b h = (Inr (length h), h @ [IndexTensor idxs])"
      using Tensor Inr assms by (simp add: tensor_argmax_def bind_prog_def load_def alloc_def)
    have t: "tensor_tolist (length h) (h @ [IndexTensor idxs])
               = (Inr (Suc (length h)), h @ [IndexTensor idxs, NestedList idxs])"
      by (simp add: tensor_tolist_def bind_prog_def load_def alloc_def)
    have ld: "load (Suc (length h)) (h @ [IndexTensor idxs, NestedList idxs])
               = (Inr (NestedList idxs), h @ [IndexTensor idxs, NestedList idxs])"
      by (simp add: load_def nth_append)
    have "Tagger_postprocess_store i b l h =
            bind_prog (tag_sentences_store i l 0 idxs) (\<lambda>tags. alloc (Tuples tags))
              (h @ [IndexTensor idxs, NestedList idxs])"
      unfolding Tagger_postprocess_store_def
      by (simp add: bind_prog_def[of "tensor_argmax b"] a bind_prog_def[of "tensor_tolist (length h)"] t
          bind_prog_def[of "load (Suc (length h))"] ld)
    also have "\<dots> = (case fst (tag_sentences_store i l 0 idxs (h @ [IndexTensor idxs, NestedList idxs])) of
                  Inl e \<Rightarrow> (Inl e, h @ [IndexTensor idxs, NestedList idxs])
                | Inr tags \<Rightarrow> (Inr (length h + 2), h @ [IndexTensor idxs, NestedList idxs, Tuples tags]))"
      by (simp add: bind_reads[OF reads_only_tag_sentences] alloc_def split: sum.split)
    finally show ?thesis using Tensor Inr by simp
  qed
qed (use assms in \<open>simp_all add: Tagger_postprocess_store_def tensor_argmax_def bind_prog_def load_def raise_def\<close>)

lemma Tagger_postprocess_store_frame:
  assumes "b < length h"
  shows "\<exists>ext. snd (Tagger_postprocess_store i b l h) = h @ ext"
  unfolding Tagger_postprocess_store_run[OF assms]
  by (simp split: object.split sum.split)

lemma Tagger_postprocess_store_ext:
  assumes "i < length h" and "b < length h" and "l < length h"
  shows "returned (Tagger_postprocess_store i b l (h @ ext)) = returned (Tagger_postprocess_store i b l h)"
proof -
  from assms(2) have b': "b < length (h @ ext)" by simp
  from assms(2) have nb: "(h @ ext) ! b = h ! b" by (simp add: nth_append)
  have e: "fst (tag_sentences_store i l 0 idxs ((h @ ext) @ [IndexTensor idxs, NestedList idxs]))
         = fst (tag_sentences_store i l 0 idxs (h @ [IndexTensor idxs, NestedList idxs]))" for idxs
    using tag_sentences_store_ext[OF assms(1,3), of 0 idxs "ext @ [IndexTensor idxs, NestedList idxs]"]
          tag_sentences_store_ext[OF assms(1,3), of 0 idxs "[IndexTensor idxs, NestedList idxs]"]
    by simp
  have n1: "(g @ [x, y, z]) ! (length g + 2) = z" for x y z :: object and g
    by (simp add: nth_append)
  show ?thesis
  proof (cases "h ! b")
    case (Tensor t)
    show ?thesis
    proof (cases "argmax_dim2 t")
      case (Inl err)
      show ?thesis
        unfolding Tagger_postprocess_store_run[OF b'] Tagger_postprocess_store_run[OF assms(2)] nb
        by (simp add: Tensor Inl returned_def)
    next
      case (Inr idxs)
      show ?thesis
      proof (cases "fst (tag_sentences_store i l 0 idxs (h @ [IndexTensor idxs, NestedList idxs]))")
        case (Inl err)
        show ?thesis
          unfolding Tagger_postprocess_store_run[OF b'] Tagger_postprocess_store_run[OF assms(2)] nb
            Tensor object.case Inr sum.case e Inl
          by (simp add: returned_def)
      next
        case tags: (Inr tags)
        show ?thesis
          unfolding Tagger_postprocess_store_run[OF b'] Tagger_postprocess_store_run[OF assms(2)] nb
            Tensor object.case Inr sum.case e tags returned_def prod.case n1
          by (rule refl)
      qed
    qed
  qed (simp_all add: Tagger_postprocess_store_run[OF b'] Tagger_postprocess_store_run[OF assms(2)] nb returned_def)
qed

lemma tag_sentence_store_value:
  assumes "i < length h" "h ! i = Dict d" "l < length h" "h ! l = IntSeq ls"
  shows "fst (tag_sentence_store i l s c sent h) = tag_sentence d ls s c sent"
proof (induction sent arbitrary: c)
  case Nil
  show ?case by (simp add: ret_def)
next
  case (Cons tag_idx rest)
  have r: "reads_only (tag_sentence_store i l s (Suc c) rest)" by (rule reads_only_tag_sentence)
  have sg: "fst (seq_getitem l s h) = (if s < length ls then Inr (ls ! s) else Inl IndexError)"
    using assms(3,4) by (simp add: seq_getitem_def bind_prog_def load_def ret_def raise_def)
  have dg: "fst (dict_getitem i tag_idx h) = (case d tag_idx of None \<Rightarrow> Inl KeyError | Some w \<Rightarrow> Inr w)"
    using assms(1,2) by (simp add: dict_getitem_def bind_prog_def load_def ret_def raise_def split: option.split)
  show ?case
    unfolding tag_sentence_store.simps tag_sentence.simps
    by (simp add: bind_reads[OF reads_only_seq_getitem] bind_reads[OF reads_only_dict_getitem]
        bind_reads[OF r] sg dg Cons.IH ret_def split: sum.split option.split)
qed

lemma tag_sentences_store_value:
  assumes "i < length h" "h ! i = Dict d" "l < length h" "h ! l = IntSeq ls"
  shows "fst (tag_sentences_store i l s idxs h) = tag_sentences d ls s idxs"
proof (induction idxs arbitrary: s)
  case Nil
  show ?case by (simp add: ret_def)
next
  case (Cons sent rest)
  have r: "reads_only (tag_sentences_store i l (Suc s) rest)" by (rule reads_only_tag_sentences)
  show ?case
    unfolding tag_sentences_store.simps tag_sentences.simps
    by (simp add: bind_reads[OF reads_only_tag_sentence] bind_reads[OF r]
        tag_sentence_store_value[OF assms] Cons.IH ret_def split: sum.split)
qed

lemma Tagger_postprocess_store_value:
  assumes "i < length h" "h ! i = Dict (i2w vm)" "b < length h" "h ! b = Tensor batch"
    and "l < length h" "h ! l = IntSeq lengths"
  shows "returned (Tagger_postprocess_store i b l h) =
           (case Tagger_postprocess vm batch lengths of Inl e \<Rightarrow> Inl e | Inr tags \<Rightarrow> Inr (Tuples tags))"
proof -
  have v: "fst (tag_sentences_store i l 0 idxs (h @ [IndexTensor idxs, NestedList idxs]))
             = tag_sentences (i2w vm) lengths 0 idxs" for idxs
    using tag_sentences_store_ext[OF assms(1,5), of 0 idxs "[IndexTensor idxs, NestedList idxs]"]
          tag_sentences_store_value[OF assms(1,2,5,6), of 0 idxs]
    by simp
  have n1: "(h @ [x, y, z]) ! (length h + 2) = z" for x y z :: object
    by (simp add: nth_append)
  show ?thesis
    unfolding Tagger_postprocess_store_run[OF assms(3)] assms(4) Tagger_postprocess_def
    using n1 by (simp add: returned_def v split: sum.split)
qed

text \<open>
  Claim C9.  \<^verbatim>\<open>Tagger.postprocess\<close> run on a store that holds the dictionary, the logits
  tensor and the lengths sequence, and run a second time on the store that the first run
  leaves: neither run changes an object that was in the store before it (a run only adds
  objects), and the second run returns what the first returned, the same tag tuples or the
  same exception: the value that the method computes from the contents of the three
  objects.
\<close>

theorem Tagger_postprocess_repeatable:
  assumes i2w: "i2w_ref < length h" "h ! i2w_ref = Dict (i2w vm)"
    and batch: "batch_ref < length h" "h ! batch_ref = Tensor batch"
    and lengths: "lengths_ref < length h" "h ! lengths_ref = IntSeq lengths"
  shows "\<exists>r1 h1 r2 h2.
           Tagger_postprocess_store i2w_ref batch_ref lengths_ref h = (r1, h1)
         \<and> Tagger_postprocess_store i2w_ref batch_ref lengths_ref h1 = (r2, h2)
         \<and> take (length h) h1 = h
         \<and> take (length h1) h2 = h1
         \<and> returned (r2, h2) = returned (r1, h1)
         \<and> returned (r1, h1) =
               (case Tagger_postprocess vm batch lengths of Inl e \<Rightarrow> Inl e | Inr tags \<Rightarrow> Inr (Tuples tags))"
proof -
  obtain r1 h1 where run1: "Tagger_postprocess_store i2w_ref batch_ref lengths_ref h = (r1, h1)"
    by (cases "Tagger_postprocess_store i2w_ref batch_ref lengths_ref h")
  obtain r2 h2 where run2: "Tagger_postprocess_store i2w_ref batch_ref lengths_ref h1 = (r2, h2)"
    by (cases "Tagger_postprocess_store i2w_ref batch_ref lengths_ref h1")
  from Tagger_postprocess_store_frame[OF batch(1), of i2w_ref lengths_ref] run1
  obtain e1 where e1: "h1 = h @ e1" by auto
  with batch(1) have b1: "batch_ref < length h1" by simp
  from Tagger_postprocess_store_frame[OF b1, of i2w_ref lengths_ref] run2
  obtain e2 where e2: "h2 = h1 @ e2" by auto
  from Tagger_postprocess_store_ext[OF i2w(1) batch(1) lengths(1), of e1] run1 run2 e1
  have same: "returned (r2, h2) = returned (r1, h1)" by simp
  from Tagger_postprocess_store_value[OF i2w batch lengths] run1
  have val: "returned (r1, h1) =
               (case Tagger_postprocess vm batch lengths of Inl e \<Rightarrow> Inl e | Inr tags \<Rightarrow> Inr (Tuples tags))"
    by simp
  from run1 run2 e1 e2 same val show ?thesis by simp
qed

text \<open>The two runs on the store of the tagging scenario.\<close>

theorem Tagger_postprocess_repeatable_witness:
  "\<exists>r1 h1 r2 h2.
       Tagger_postprocess_store 0 1 2 tagging_store = (r1, h1)
     \<and> Tagger_postprocess_store 0 1 2 h1 = (r2, h2)
     \<and> take (length tagging_store) h1 = tagging_store
     \<and> take (length h1) h2 = h1
     \<and> returned (r2, h2) = returned (r1, h1)
     \<and> returned (r1, h1) =
           (case Tagger_postprocess tag_vocab scenario_logits [3, 1] of
              Inl e \<Rightarrow> Inl e | Inr tags \<Rightarrow> Inr (Tuples tags))"
  by (rule Tagger_postprocess_repeatable) (simp_all add: tagging_store_def)

text \<open>
  The value of the run of the scenario, and a statement that writes, for contrast: it
  leaves another store.
\<close>

lemma tagging_store_value:
  "returned (Tagger_postprocess_store 0 1 2 tagging_store)
     = Inr (Tuples [[''fn'', ''sfg3en'', ''no''], [''fn'']])"
proof -
  have "returned (Tagger_postprocess_store 0 1 2 tagging_store) =
          (case Tagger_postprocess tag_vocab scenario_logits [3, 1] of
             Inl e \<Rightarrow> Inl e | Inr tags \<Rightarrow> Inr (Tuples tags))"
    by (rule Tagger_postprocess_store_value) (simp_all add: tagging_store_def)
  then show ?thesis by (simp add: scenario_value)
qed

lemma store_writes: "snd (store 2 (IntSeq []) tagging_store) \<noteq> tagging_store"
  by (simp add: store_def tagging_store_def)

subsection \<open>\<^verbatim>\<open>GRUDecoder.postprocess\<close>: lemmas from character indices\<close>

lemma list_index_first:
  "x \<in> set xs \<Longrightarrow> list_index xs x = Inr (length (takeWhile (\<lambda>y. y \<noteq> x) xs))"
  by (induction xs) auto

lemma takeWhile_absent: "x \<notin> set xs \<Longrightarrow> takeWhile (\<lambda>y. y \<noteq> x) xs = xs"
  by (induction xs) auto

lemma take_first_occurrence:
  "take (length (takeWhile P xs)) xs = takeWhile P xs"
  by (induction xs) auto

lemma illegal_chars_output_iff:
  "k \<notin> illegal_chars_output vm \<longleftrightarrow> k \<noteq> PAD_ID vm \<and> k \<noteq> UNK_ID vm \<and> k \<noteq> SOS_ID vm"
  by (auto simp: illegal_chars_output_def)

lemma lemma_chars_explicit:
  "lemma_chars vm char_idxs =
     map (\<lambda>k. the (i2w vm k))
       (filter (\<lambda>k. k \<noteq> PAD_ID vm \<and> k \<noteq> UNK_ID vm \<and> k \<noteq> SOS_ID vm) char_idxs)"
  by (simp add: lemma_chars_def illegal_chars_output_iff)

lemma map_lemma_from_char_idx_Inr:
  assumes "\<forall>k \<in> set char_idxs. k \<notin> illegal_chars_output vm \<longrightarrow> i2w vm k \<noteq> None"
  shows "map_lemma_from_char_idx vm char_idxs =
           Inr (concat (takeWhile (\<lambda>w. w \<noteq> EOS vm) (lemma_chars vm char_idxs)))"
proof -
  have t: "traverse (dict_get (i2w vm)) (filter (\<lambda>k. k \<notin> illegal_chars_output vm) char_idxs)
             = Inr (lemma_chars vm char_idxs)"
    unfolding lemma_chars_def
  proof (rule traverse_Inr)
    fix k assume "k \<in> set (filter (\<lambda>k. k \<notin> illegal_chars_output vm) char_idxs)"
    with assms have "i2w vm k \<noteq> None" by auto
    then show "dict_get (i2w vm) k = Inr (the (i2w vm k))" by (auto simp: dict_get_def)
  qed
  show ?thesis
  proof (cases "EOS vm \<in> set (lemma_chars vm char_idxs)")
    case True
    then show ?thesis
      by (simp add: map_lemma_from_char_idx_def t list_index_first take_first_occurrence)
  next
    case False
    then have tw: "takeWhile (\<lambda>w. w \<noteq> EOS vm) (lemma_chars vm char_idxs) = lemma_chars vm char_idxs"
      by (rule takeWhile_absent)
    have "map_lemma_from_char_idx vm char_idxs = Inr (concat (lemma_chars vm char_idxs))"
      using False by (simp add: map_lemma_from_char_idx_def t)
    then show ?thesis by (simp only: tw)
  qed
qed

lemma map_sentence_chars_Inr:
  assumes "nat sent_length \<le> length sent"
    and "\<forall>tok \<in> set sent. \<forall>k \<in> set tok. k \<notin> illegal_chars_output vm \<longrightarrow> i2w vm k \<noteq> None"
  shows "map_sentence_chars vm sent sent_length =
           Inr (map (\<lambda>n. concat (takeWhile (\<lambda>w. w \<noteq> EOS vm) (lemma_chars vm (sent ! n)))) [0 ..< nat sent_length])"
  unfolding map_sentence_chars_def
proof (rule traverse_Inr)
  fix n assume "n \<in> set [0 ..< nat sent_length]"
  with assms(1) have n: "n < length sent" by simp
  then have "sent ! n \<in> set sent" by simp
  with assms(2) have "\<forall>k \<in> set (sent ! n). k \<notin> illegal_chars_output vm \<longrightarrow> i2w vm k \<noteq> None" by blast
  from map_lemma_from_char_idx_Inr[OF this] n
  show "(if n < length sent then map_lemma_from_char_idx vm (sent ! n) else Inl IndexError) =
        Inr (concat (takeWhile (\<lambda>w. w \<noteq> EOS vm) (lemma_chars vm (sent ! n))))" by simp
qed

lemma view_sentences_Inr:
  assumes "length char_preds = b * s" and "0 < b" and "0 < s" and "\<forall>row \<in> set char_preds. length row = c" and "0 < c"
  shows "view_sentences b char_preds = Inr (map (\<lambda>i. take s (drop (i * s) char_preds)) [0 ..< b])"
proof -
  from assms have ne: "char_preds \<noteq> []" by auto
  then obtain r rs where rr: "char_preds = r # rs" by (cases char_preds) auto
  with assms(4,5) have c: "(case char_preds of [] \<Rightarrow> 0 | row # _ \<Rightarrow> length row) \<noteq> 0" by auto
  from assms have d: "(b * s) div b = s" "(b * s) mod b = 0" by simp_all
  show ?thesis using c d ne assms(1,2,3) by (simp add: view_sentences_def Let_def)
qed

lemma argmax_dim2_row:
  "argmax_dim2 t = Inr idxs \<Longrightarrow> i < length t \<Longrightarrow> traverse argmax (t ! i) = Inr (idxs ! i)"
  unfolding argmax_dim2_def by (rule traverse_nth)

lemma chunk_length:
  assumes "length xs = b * s" and "i < b"
  shows "length (take s (drop (i * s) xs)) = s"
proof -
  from assms(2) have "Suc i \<le> b" by simp
  then have "Suc i * s \<le> b * s" by (rule mult_le_mono1)
  then have "s \<le> b * s - i * s" by simp
  with assms(1) show ?thesis by simp
qed

lemma chunk_nth:
  assumes "length xs = b * s" and "i < b" and "j < s"
  shows "take s (drop (i * s) xs) ! j = xs ! (i * s + j)" and "i * s + j < b * s"
proof -
  from assms(2) have "Suc i \<le> b" by simp
  then have "Suc i * s \<le> b * s" by (rule mult_le_mono1)
  with assms(3) show lt: "i * s + j < b * s" by simp
  with assms show "take s (drop (i * s) xs) ! j = xs ! (i * s + j)" by simp
qed

lemma GRUDecoder_postprocess_chars:
  assumes shape: "has_shape3 batch (b * s) c v"
    and pos: "0 < b" "0 < s" "0 < c" "0 < v"
    and len: "length lengths = b"
    and bounds: "\<forall>i<b. lengths ! i \<le> int s"
    and vocab: "\<forall>k<v. k \<notin> illegal_chars_output vm \<longrightarrow> i2w vm k \<noteq> None"
  shows "\<exists>strs. GRUDecoder_postprocess vm batch lengths = Inr strs \<and> length strs = b \<and>
           (\<forall>i<b. length (strs ! i) = nat (lengths ! i) \<and>
              (\<forall>j<nat (lengths ! i). \<exists>char_idxs.
                  traverse argmax (batch ! (i * s + j)) = Inr char_idxs \<and>
                  strs ! i ! j = concat (takeWhile (\<lambda>w. w \<noteq> EOS vm) (lemma_chars vm char_idxs)) \<and>
                  (EOS vm \<notin> set (lemma_chars vm char_idxs) \<longrightarrow>
                     strs ! i ! j = concat (lemma_chars vm char_idxs))))"
proof -
  let ?join = "\<lambda>char_idxs. concat (takeWhile (\<lambda>w. w \<noteq> EOS vm) (lemma_chars vm char_idxs))"
  from argmax_dim2_Inr[OF shape pos(4)] obtain cp where
    cp: "argmax_dim2 batch = Inr cp" "length cp = b * s"
        "\<forall>n<b * s. length (cp ! n) = c \<and> (\<forall>t<c. argmax (batch ! n ! t) = Inr (cp ! n ! t))"
    by blast
  have legal: "\<forall>k \<in> set (cp ! n). k \<notin> illegal_chars_output vm \<longrightarrow> i2w vm k \<noteq> None" if n: "n < b * s" for n
  proof
    fix k assume "k \<in> set (cp ! n)"
    then obtain t where t: "t < length (cp ! n)" "k = cp ! n ! t" by (metis in_set_conv_nth)
    with cp(3) n have tc: "t < c" by simp
    with cp(3) n have a: "argmax (batch ! n ! t) = Inr (cp ! n ! t)" by simp
    from has_shape3_nth(2)[OF shape n tc] have "length (batch ! n ! t) = v" .
    with argmax_Inr[OF a] t(2) have "k < v" by simp
    with vocab show "k \<notin> illegal_chars_output vm \<longrightarrow> i2w vm k \<noteq> None" by simp
  qed
  have rows: "\<forall>row \<in> set cp. length row = c"
  proof
    fix row assume "row \<in> set cp"
    then obtain n where "n < length cp" "row = cp ! n" by (metis in_set_conv_nth)
    with cp(2,3) show "length row = c" by simp
  qed
  let ?as_list = "map (\<lambda>i. take s (drop (i * s) cp)) [0 ..< b]"
  have view: "view_sentences (length lengths) cp = Inr ?as_list"
    using view_sentences_Inr[OF cp(2) pos(1) pos(2) rows pos(3)] len by simp
  let ?g = "\<lambda>(sent, sent_length). map (\<lambda>n. ?join (sent ! n)) [0 ..< nat sent_length]"
  have tr: "traverse (\<lambda>(sent, sent_length). map_sentence_chars vm sent sent_length) (zip ?as_list lengths)
              = Inr (map ?g (zip ?as_list lengths))"
  proof (rule traverse_Inr)
    fix p assume "p \<in> set (zip ?as_list lengths)"
    then obtain i where i: "i < b" "p = (?as_list ! i, lengths ! i)"
      using len by (auto simp: set_zip)
    let ?sent = "take s (drop (i * s) cp)"
    from i have p: "p = (?sent, lengths ! i)" by simp
    have ls: "length ?sent = s" using chunk_length[OF cp(2) i(1)] .
    from bounds i(1) have b1: "nat (lengths ! i) \<le> length ?sent" unfolding ls by auto
    have b2: "\<forall>tok \<in> set ?sent. \<forall>k \<in> set tok. k \<notin> illegal_chars_output vm \<longrightarrow> i2w vm k \<noteq> None"
    proof
      fix tok assume "tok \<in> set ?sent"
      then obtain j where j: "j < length ?sent" "tok = ?sent ! j" by (metis in_set_conv_nth)
      from j(1) ls have js: "j < s" by simp
      from chunk_nth[OF cp(2) i(1) js] j(2) have "tok = cp ! (i * s + j)" "i * s + j < b * s" by simp_all
      with legal show "\<forall>k \<in> set tok. k \<notin> illegal_chars_output vm \<longrightarrow> i2w vm k \<noteq> None" by simp
    qed
    from map_sentence_chars_Inr[OF b1 b2] p
    show "(case p of (sent, sent_length) \<Rightarrow> map_sentence_chars vm sent sent_length) = Inr (?g p)" by simp
  qed
  let ?strs = "map ?g (zip ?as_list lengths)"
  have res: "GRUDecoder_postprocess vm batch lengths = Inr ?strs"
    by (simp add: GRUDecoder_postprocess_def cp(1) view tr del: map_map)
  have lenl: "length ?strs = b" using len by simp
  have each: "length (?strs ! i) = nat (lengths ! i) \<and>
              (\<forall>j<nat (lengths ! i). \<exists>char_idxs.
                  traverse argmax (batch ! (i * s + j)) = Inr char_idxs \<and>
                  ?strs ! i ! j = ?join char_idxs \<and>
                  (EOS vm \<notin> set (lemma_chars vm char_idxs) \<longrightarrow> ?strs ! i ! j = concat (lemma_chars vm char_idxs)))"
    if i: "i < b" for i
  proof -
    let ?sent = "take s (drop (i * s) cp)"
    have li: "?strs ! i = map (\<lambda>n. ?join (?sent ! n)) [0 ..< nat (lengths ! i)]"
      using i len by simp
    from bounds i have le: "nat (lengths ! i) \<le> s" by auto
    have "\<exists>char_idxs. traverse argmax (batch ! (i * s + j)) = Inr char_idxs \<and>
                  ?strs ! i ! j = ?join char_idxs \<and>
                  (EOS vm \<notin> set (lemma_chars vm char_idxs) \<longrightarrow> ?strs ! i ! j = concat (lemma_chars vm char_idxs))"
      if j: "j < nat (lengths ! i)" for j
    proof -
      from j le have js: "j < s" by simp
      from chunk_nth[OF cp(2) i js] have n: "?sent ! j = cp ! (i * s + j)" "i * s + j < b * s" by simp_all
      from shape have "length batch = b * s" by (simp add: has_shape3_def)
      with n(2) have a: "traverse argmax (batch ! (i * s + j)) = Inr (cp ! (i * s + j))"
        using argmax_dim2_row[OF cp(1)] by simp
      have v: "?strs ! i ! j = ?join (cp ! (i * s + j))"
        unfolding li using j n(1) by simp
      have "EOS vm \<notin> set (lemma_chars vm (cp ! (i * s + j))) \<Longrightarrow>
              ?join (cp ! (i * s + j)) = concat (lemma_chars vm (cp ! (i * s + j)))"
        by (simp add: takeWhile_absent)
      with a v show ?thesis by (intro exI[of _ "cp ! (i * s + j)"]) simp
    qed
    moreover have "length (?strs ! i) = nat (lengths ! i)" unfolding li by simp
    ultimately show ?thesis by blast
  qed
  from res lenl each show ?thesis by blast
qed

text \<open>
  Claim C4.  For logits of shape \<open>(b * s, c, v)\<close> (all sizes positive), one length per
  sentence with \<open>lengths[i] \<le> s\<close>, and a vocabulary whose \<^verbatim>\<open>i2w\<close> has every legal
  index below \<open>v\<close>: \<^verbatim>\<open>GRUDecoder.postprocess\<close> returns, for every sentence \<open>i\<close> and
  every token \<open>j\<close> below \<open>lengths[i]\<close>, the lemma built from the arg-max indices of
  that token: \<^verbatim>\<open>PAD\<close>, \<^verbatim>\<open>UNK\<close> and \<^verbatim>\<open>SOS\<close> indices are dropped, the remaining
  characters are cut before the first \<^verbatim>\<open>EOS\<close> and joined.  When no \<^verbatim>\<open>EOS\<close> was
  generated the lemma is all of the remaining characters, not a failure.
\<close>

theorem GRUDecoder_postprocess_lemmas:
  assumes shape: "has_shape3 batch (b * s) c v"
    and pos: "0 < b" "0 < s" "0 < c" "0 < v"
    and len: "length lengths = b"
    and bounds: "\<forall>i<b. lengths ! i \<le> int s"
    and vocab: "\<forall>k<v. k \<noteq> PAD_ID vm \<and> k \<noteq> UNK_ID vm \<and> k \<noteq> SOS_ID vm \<longrightarrow> i2w vm k \<noteq> None"
  shows "\<exists>strs. GRUDecoder_postprocess vm batch lengths = Inr strs \<and> length strs = b \<and>
           (\<forall>i<b. length (strs ! i) = nat (lengths ! i) \<and>
              (\<forall>j<nat (lengths ! i). \<exists>char_idxs chars.
                  traverse argmax (batch ! (i * s + j)) = Inr char_idxs \<and>
                  chars = map (\<lambda>k. the (i2w vm k))
                            (filter (\<lambda>k. k \<noteq> PAD_ID vm \<and> k \<noteq> UNK_ID vm \<and> k \<noteq> SOS_ID vm) char_idxs) \<and>
                  strs ! i ! j = concat (takeWhile (\<lambda>w. w \<noteq> EOS vm) chars) \<and>
                  (EOS vm \<notin> set chars \<longrightarrow> strs ! i ! j = concat chars)))"
proof -
  have v: "\<forall>k<v. k \<notin> illegal_chars_output vm \<longrightarrow> i2w vm k \<noteq> None"
    using vocab by (simp add: illegal_chars_output_iff)
  from GRUDecoder_postprocess_chars[OF shape pos len bounds v]
  show ?thesis unfolding lemma_chars_explicit by simp
qed

lemma GRUDecoder_postprocess_value:
  "GRUDecoder_postprocess char_vocab lemma_logits [1, 1] = Inr [[''a''], [''ba'']]"
  by (simp add: GRUDecoder_postprocess_def argmax_dim2_def argmax_def view_sentences_def
      map_sentence_chars_def map_lemma_from_char_idx_def illegal_chars_output_def dict_get_def
      char_vocab_def lemma_logits_def)

text \<open>The example logits satisfy the hypotheses of C4.\<close>

theorem GRUDecoder_postprocess_lemmas_witness:
  "has_shape3 lemma_logits (2 * 1) 3 6 \<and> length [1, 1 :: int] = 2 \<and>
   (\<exists>strs. GRUDecoder_postprocess char_vocab lemma_logits [1, 1] = Inr strs \<and> length strs = 2 \<and>
      length (strs ! 0) = 1 \<and> length (strs ! 1) = 1 \<and>
      (\<exists>char_idxs chars. traverse argmax (lemma_logits ! (0 * 1 + 0)) = Inr char_idxs \<and>
          chars = map (\<lambda>k. the (i2w char_vocab k))
                    (filter (\<lambda>k. k \<noteq> PAD_ID char_vocab \<and> k \<noteq> UNK_ID char_vocab \<and> k \<noteq> SOS_ID char_vocab)
                       char_idxs) \<and>
          strs ! 0 ! 0 = concat (takeWhile (\<lambda>w. w \<noteq> EOS char_vocab) chars)))"
proof -
  have h1: "has_shape3 lemma_logits (2 * 1) 3 6" by (simp add: has_shape3_def lemma_logits_def)
  have h3: "length [1, 1 :: int] = 2" by simp
  have h4: "\<forall>i<2. [1, 1 :: int] ! i \<le> int 1" by (simp add: all_less_2)
  have h5: "\<forall>k<6. k \<noteq> PAD_ID char_vocab \<and> k \<noteq> UNK_ID char_vocab \<and> k \<noteq> SOS_ID char_vocab
              \<longrightarrow> i2w char_vocab k \<noteq> None"
  proof (intro allI impI)
    fix k :: nat assume "k < 6"
    then have "k = 0 \<or> k = 1 \<or> k = 2 \<or> k = 3 \<or> k = 4 \<or> k = 5" by arith
    then show "i2w char_vocab k \<noteq> None" by (auto simp: char_vocab_def)
  qed
  from GRUDecoder_postprocess_lemmas[OF h1 _ _ _ _ h3 h4 h5] obtain res where
    t: "GRUDecoder_postprocess char_vocab lemma_logits [1, 1] = Inr res" "length res = 2"
       "\<forall>i<2. length (res ! i) = nat ([1, 1] ! i) \<and>
          (\<forall>j<nat ([1, 1] ! i). \<exists>char_idxs chars.
              traverse argmax (lemma_logits ! (i * 1 + j)) = Inr char_idxs \<and>
              chars = map (\<lambda>k. the (i2w char_vocab k))
                        (filter (\<lambda>k. k \<noteq> PAD_ID char_vocab \<and> k \<noteq> UNK_ID char_vocab \<and> k \<noteq> SOS_ID char_vocab)
                           char_idxs) \<and>
              res ! i ! j = concat (takeWhile (\<lambda>w. w \<noteq> EOS char_vocab) chars) \<and>
              (EOS char_vocab \<notin> set chars \<longrightarrow> res ! i ! j = concat chars))"
    by auto
  from t(3) have a: "length (res ! 0) = 1" "length (res ! 1) = 1"
    by (simp_all add: all_less_2)
  from t(3) have "\<forall>j<nat ([1, 1 :: int] ! 0). \<exists>char_idxs chars.
              traverse argmax (lemma_logits ! (0 * 1 + j)) = Inr char_idxs \<and>
              chars = map (\<lambda>k. the (i2w char_vocab k))
                        (filter (\<lambda>k. k \<noteq> PAD_ID char_vocab \<and> k \<noteq> UNK_ID char_vocab \<and> k \<noteq> SOS_ID char_vocab)
                           char_idxs) \<and>
              res ! 0 ! j = concat (takeWhile (\<lambda>w. w \<noteq> EOS char_vocab) chars) \<and>
              (EOS char_vocab \<notin> set chars \<longrightarrow> res ! 0 ! j = concat chars)"
    by (simp add: all_less_2)
  then have "\<exists>char_idxs chars. traverse argmax (lemma_logits ! (0 * 1 + 0)) = Inr char_idxs \<and>
          chars = map (\<lambda>k. the (i2w char_vocab k))
                    (filter (\<lambda>k. k \<noteq> PAD_ID char_vocab \<and> k \<noteq> UNK_ID char_vocab \<and> k \<noteq> SOS_ID char_vocab)
                       char_idxs) \<and>
          res ! 0 ! 0 = concat (takeWhile (\<lambda>w. w \<noteq> EOS char_vocab) chars)"
    by auto
  with t(1,2) a h1 h3 show ?thesis by blast
qed

subsection \<open>\<^verbatim>\<open>Encoder.__init__\<close>: the configuration check\<close>

lemma bilstm_in_dim_routed:
  "bilstm_in_dim embs \<noteq> 0 \<Longrightarrow> \<exists>emb \<in> set (map snd embs). to_bilstm emb"
proof (rule ccontr)
  assume nz: "bilstm_in_dim embs \<noteq> 0" and "\<not> (\<exists>emb \<in> set (map snd embs). to_bilstm emb)"
  then have "filter to_bilstm (map snd embs) = []" by (simp add: filter_empty_conv)
  with nz show False by (simp add: bilstm_in_dim_def)
qed

text \<open>
  Claim C6, as amended.  \<^verbatim>\<open>Encoder.__init__\<close> raises its configuration error exactly
  when the output dimensions of the embeddings routed to the shared recurrent layer sum to a
  nonzero value and \<^verbatim>\<open>main_lstm_layers\<close> is \<open>0\<close>; the hidden dimension is not looked
  at.  When it raises, some embedding requests the routing.  The error is the result of
  construction, so no encoder exists on which a forward pass could run.  (The library's
  constructor is assumed not to raise this same error.)
\<close>

theorem Encoder_init_configuration_error:
  assumes lib: "\<forall>input_size hidden_size num_layers. nn_LSTM input_size hidden_size num_layers \<noteq> Inl ConfigurationError"
  shows "(Encoder_init nn_LSTM nn_Dropout embs main_lstm_dim main_lstm_layers = Inl ConfigurationError
            \<longleftrightarrow> bilstm_in_dim embs \<noteq> 0 \<and> main_lstm_layers = 0)
         \<and> (Encoder_init nn_LSTM nn_Dropout embs main_lstm_dim main_lstm_layers = Inl ConfigurationError
            \<longrightarrow> (\<exists>emb \<in> set (map snd embs). to_bilstm emb))"
proof -
  have iff: "Encoder_init nn_LSTM nn_Dropout embs main_lstm_dim main_lstm_layers = Inl ConfigurationError
            \<longleftrightarrow> bilstm_in_dim embs \<noteq> 0 \<and> main_lstm_layers = 0"
  proof (cases "main_lstm_layers = 0")
    case True
    then show ?thesis by (simp add: Encoder_init_def)
  next
    case False
    from lib have "nn_LSTM (bilstm_in_dim embs) main_lstm_dim main_lstm_layers \<noteq> Inl ConfigurationError" by blast
    with False show ?thesis
      by (cases "nn_LSTM (bilstm_in_dim embs) main_lstm_dim main_lstm_layers")
         (simp_all add: Encoder_init_def bind_err_def)
  qed
  with bilstm_in_dim_routed show ?thesis by blast
qed

lemma stub_LSTM_ok: "\<forall>input_size hidden_size num_layers. stub_LSTM input_size hidden_size num_layers \<noteq> Inl ConfigurationError"
  by (simp add: stub_LSTM_def)

text \<open>A routed embedding of dimension 2 and no recurrent layer: construction is refused.\<close>

theorem Encoder_init_configuration_error_witness:
  "Encoder_init stub_LSTM id [(Trained, routed_embedding)] 64 0 = Inl ConfigurationError
   \<and> bilstm_in_dim [(Trained, routed_embedding)] = 2
   \<and> to_bilstm routed_embedding"
proof -
  have d: "bilstm_in_dim [(Trained, routed_embedding)] = 2"
    by (simp add: bilstm_in_dim_def routed_embedding_def)
  from Encoder_init_configuration_error[OF stub_LSTM_ok, of id "[(Trained, routed_embedding)]" 64 0] d
  have "Encoder_init stub_LSTM id [(Trained, routed_embedding)] 64 0 = Inl ConfigurationError" by simp
  with d show ?thesis by (simp add: routed_embedding_def)
qed

text \<open>
  Claim C6 as stated fails.  A routed embedding of output dimension zero with
  \<^verbatim>\<open>main_lstm_layers = 0\<close> requests the routing while no recurrent layer is configured,
  and construction succeeds.  With hidden dimension \<open>0\<close> and one layer the claim counts no
  recurrent layer as configured, and the check does not raise either.
\<close>

theorem Encoder_init_zero_dim_counterexample:
  "to_bilstm zero_dim_embedding
   \<and> \<not> (0 < (64::int) \<and> 0 < (0::int))
   \<and> Encoder_init stub_LSTM id [(Trained, zero_dim_embedding)] 64 0 \<noteq> Inl ConfigurationError
   \<and> \<not> isl (Encoder_init stub_LSTM id [(Trained, zero_dim_embedding)] 64 0)
   \<and> to_bilstm routed_embedding
   \<and> \<not> (0 < (0::int) \<and> 0 < (1::int))
   \<and> Encoder_init stub_LSTM id [(Trained, routed_embedding)] 0 1 \<noteq> Inl ConfigurationError"
  by (simp add: Encoder_init_def bilstm_in_dim_def encoder_out_dim_def zero_dim_embedding_def
      routed_embedding_def stub_LSTM_def bind_err_def)

subsection \<open>\<^verbatim>\<open>Encoder.forward\<close>\<close>

text \<open>With routed embeddings only, the forward pass returns the recurrent output.\<close>

lemma Encoder_forward_routed_only:
  "(case Encoder_init stub_LSTM id [(Trained, routed_embedding)] 1 1 of
      Inl e \<Rightarrow> False
    | Inr enc \<Rightarrow> encoder_output_dim enc = 2 \<and>
        Encoder_forward enc [[''a'', ''b''], [''c'']] [2, 1] = Inr (Some [[[0, 0], [0, 0]], [[0, 0], [0, 0]]]))"
  by (simp add: Encoder_init_def Encoder_forward_def bilstm_in_dim_def encoder_out_dim_def
      routed_embedding_def stub_LSTM_def stub_forward_def bind_err_def cat_if_any_def
      pack_padded_sequence_def pad_packed_sequence_def numel_def size1_def eval_nat_numeral)

text \<open>
  Claim C1 at an encoder with one routed and one directly concatenated embedding (each of
  dimension 2), hidden dimension 1 and one layer, on the batch of the single one-token
  sentence: \<^verbatim>\<open>output_dim\<close> is \<open>4\<close>, and the forward pass raises at \<^verbatim>\<open>if embs:\<close>,
  the truth value of a tensor of two elements, before the concatenation with the recurrent
  output.
\<close>

theorem Encoder_forward_mixed_raises:
  "(case Encoder_init stub_LSTM id [(Trained, routed_embedding), (BERT, direct_embedding)] 1 1 of
      Inl e \<Rightarrow> False
    | Inr enc \<Rightarrow> encoder_output_dim enc = 4 \<and>
        Encoder_forward enc [[''a'']] [1] = Inl RuntimeError)"
  by (simp add: Encoder_init_def Encoder_forward_def bilstm_in_dim_def encoder_out_dim_def
      routed_embedding_def direct_embedding_def stub_LSTM_def stub_forward_def bind_err_def cat_if_any_def
      pack_padded_sequence_def pad_packed_sequence_def numel_def size1_def tensor_bool_def eval_nat_numeral)

lemma single_element_case:
  "length xs \<noteq> 1 \<Longrightarrow>
     (case xs of [] \<Rightarrow> Inl RuntimeError | [x] \<Rightarrow> Inr (x \<noteq> (0::real)) | x # y # ys \<Rightarrow> Inl RuntimeError)
       = Inl RuntimeError"
  by (cases xs; cases "tl xs") auto

lemma tensor_bool_raises: "numel e \<noteq> 1 \<Longrightarrow> tensor_bool e = Inl RuntimeError"
  unfolding tensor_bool_def numel_def by (rule single_element_case)

text \<open>
  The failure does not depend on the example.  Whenever a recurrent layer is in use, both
  kinds of embeddings are present and the directly concatenated features have another
  number of elements than one, the forward pass ends in an exception: at the latest at
  \<^verbatim>\<open>if embs:\<close>.
\<close>

lemma Encoder_forward_mixed_never_returns:
  assumes use: "use_bilstm self"
    and routed: "traverse (\<lambda>emb. forward emb batch lengths) (filter to_bilstm (map snd (embeddings self))) = Inr rs"
                "rs \<noteq> []"
    and direct: "traverse (\<lambda>emb. forward emb batch lengths)
                   (filter (\<lambda>emb. \<not> to_bilstm emb) (map snd (embeddings self))) = Inr ds"
                "ds \<noteq> []" "cat_dim2 ds = Inr e" "numel e \<noteq> 1"
  shows "isl (Encoder_forward self batch lengths)"
proof (cases "cat_dim2 rs")
  case (Inl err)
  then show ?thesis using routed by (simp add: Encoder_forward_def bind_err_def cat_if_any_def)
next
  case (Inr r)
  note r = this
  have tb: "tensor_bool e = Inl RuntimeError" by (rule tensor_bool_raises[OF direct(4)])
  show ?thesis
  proof (cases "pack_padded_sequence r lengths")
    case (Inl err)
    then show ?thesis using use routed direct r
      by (simp add: Encoder_forward_def bind_err_def cat_if_any_def)
  next
    case (Inr packed)
    note p = this
    show ?thesis
    proof (cases "case bilstm self of None \<Rightarrow> Inl AttributeError | Some lstm \<Rightarrow> lstm packed")
      case (Inl err)
      then show ?thesis using use routed direct r p
        by (simp add: Encoder_forward_def bind_err_def cat_if_any_def)
    next
      case (Inr packed_out)
      then show ?thesis using use routed direct r p tb
        by (simp add: Encoder_forward_def bind_err_def cat_if_any_def Let_def)
    qed
  qed
qed

subsection \<open>Packing and unpacking\<close>

lemma sum_squares_zero_iff:
  fixes v :: "real list"
  shows "sum_list (map (\<lambda>x. x ^ 2) v) = 0 \<longleftrightarrow> (\<forall>x \<in> set v. x = 0)"
proof -
  have "sum_list (map (\<lambda>x. x ^ 2) v) = 0 \<longleftrightarrow> (\<forall>y \<in> set (map (\<lambda>x. x ^ 2) v). y = 0)"
    by (rule sum_list_nonneg_eq_0_iff) auto
  then show ?thesis by simp
qed

lemma filter_prefix_count:
  assumes "n \<le> length xs" and "\<forall>t<n. P (xs ! t)" and "\<forall>t. n \<le> t \<and> t < length xs \<longrightarrow> \<not> P (xs ! t)"
  shows "length (filter P xs) = n"
proof -
  have a: "filter P (take n xs) = take n xs"
    using assms(1,2) by (auto simp: filter_id_conv in_set_conv_nth)
  have b: "filter P (drop n xs) = []"
    using assms(1,3) by (auto simp: filter_empty_conv in_set_conv_nth)
  have "filter P xs = filter P (take n xs @ drop n xs)" by simp
  also have "\<dots> = take n xs" unfolding filter_append a b by simp
  finally show ?thesis using assms(1) by simp
qed

lemma fold_max_ge_init: "(a::nat) \<le> fold max xs a"
proof (induction xs arbitrary: a)
  case Nil show ?case by simp
next
  case (Cons x xs)
  have "a \<le> max x a" by simp
  also have "\<dots> \<le> fold max xs (max x a)" by (rule Cons.IH)
  finally show ?case by simp
qed

lemma fold_max_ge_mem: "(x::nat) \<in> set xs \<Longrightarrow> x \<le> fold max xs a"
proof (induction xs arbitrary: a)
  case Nil then show ?case by simp
next
  case (Cons y ys)
  show ?case
  proof (cases "x = y")
    case True
    have "x \<le> max y a" using True by simp
    also have "\<dots> \<le> fold max ys (max y a)" by (rule fold_max_ge_init)
    finally show ?thesis by simp
  next
    case False
    with Cons.prems have "x \<in> set ys" by simp
    from Cons.IH[OF this] show ?thesis by simp
  qed
qed

lemma fold_max_le: "\<forall>x \<in> set xs. x \<le> m \<Longrightarrow> (a::nat) \<le> m \<Longrightarrow> fold max xs a \<le> m"
  by (induction xs arbitrary: a) auto

lemma fold_max_eq:
  assumes "\<forall>x \<in> set xs. x \<le> m" and "(m::nat) \<in> set xs"
  shows "fold max xs 0 = m"
  using fold_max_le[OF assms(1), of 0] fold_max_ge_mem[OF assms(2), of 0] by simp

lemma take_append_zero_tail:
  assumes "length xs = s" and "n \<le> s" and "\<forall>t. n \<le> t \<and> t < s \<longrightarrow> xs ! t = z"
  shows "take n xs @ replicate (s - n) z = xs"
proof (rule nth_equalityI)
  show "length (take n xs @ replicate (s - n) z) = length xs" using assms(1,2) by simp
next
  fix t assume "t < length (take n xs @ replicate (s - n) z)"
  with assms(1,2) have t: "t < s" by simp
  show "(take n xs @ replicate (s - n) z) ! t = xs ! t"
  proof (cases "t < n")
    case True
    with assms(1,2) show ?thesis by (simp add: nth_append)
  next
    case False
    with t assms show ?thesis by (simp add: nth_append)
  qed
qed

lemma right_padded_nth:
  assumes "right_padded x s f ns" and "i < length ns"
  shows "length (x ! i) = s" and "ns ! i \<le> s"
    and "\<And>t. t < ns ! i \<Longrightarrow> \<exists>k<f. x ! i ! t ! k \<noteq> 0"
    and "\<And>t. ns ! i \<le> t \<Longrightarrow> t < s \<Longrightarrow> x ! i ! t = replicate f 0"
    and "\<And>t. t < s \<Longrightarrow> length (x ! i ! t) = f"
proof -
  from assms have sh: "has_shape3 x (length ns) s f" by (simp add: right_padded_def)
  from has_shape3_nth(1)[OF sh assms(2)] show "length (x ! i) = s" .
  from assms show "ns ! i \<le> s" by (simp add: right_padded_def)
  from assms show "\<And>t. t < ns ! i \<Longrightarrow> \<exists>k<f. x ! i ! t ! k \<noteq> 0" by (simp add: right_padded_def)
  from assms show "\<And>t. ns ! i \<le> t \<Longrightarrow> t < s \<Longrightarrow> x ! i ! t = replicate f 0" by (simp add: right_padded_def)
  from has_shape3_nth(2)[OF sh assms(2)] show "\<And>t. t < s \<Longrightarrow> length (x ! i ! t) = f" .
qed

lemma right_padded_count:
  assumes rp: "right_padded x s f ns" and i: "i < length ns"
    and zero: "sum_squares (replicate f 0) = 0"
    and nonzero: "\<forall>i<length ns. \<forall>t<ns ! i. sum_squares (x ! i ! t) \<noteq> 0"
  shows "length (filter (\<lambda>v. sum_squares v \<noteq> 0) (x ! i)) = ns ! i"
proof (rule filter_prefix_count)
  note r = right_padded_nth[OF rp i]
  show "ns ! i \<le> length (x ! i)" using r(1,2) by simp
  show "\<forall>t<ns ! i. sum_squares (x ! i ! t) \<noteq> 0" using nonzero i by blast
  show "\<forall>t. ns ! i \<le> t \<and> t < length (x ! i) \<longrightarrow> \<not> sum_squares (x ! i ! t) \<noteq> 0"
  proof (intro allI impI)
    fix t assume "ns ! i \<le> t \<and> t < length (x ! i)"
    with r(1) r(4)[of t] have "x ! i ! t = replicate f 0" by simp
    with zero show "\<not> sum_squares (x ! i ! t) \<noteq> 0" by simp
  qed
qed

lemma right_padded_lengths:
  assumes rp: "right_padded x s f ns"
    and zero: "sum_squares (replicate f 0) = 0"
    and nonzero: "\<forall>i<length ns. \<forall>t<ns ! i. sum_squares (x ! i ! t) \<noteq> 0"
  shows "map (\<lambda>seq. int (length (filter (\<lambda>v. sum_squares v \<noteq> 0) seq))) x = map int ns"
proof (rule nth_equalityI)
  from rp have l: "length x = length ns" by (simp add: right_padded_def has_shape3_def)
  then show "length (map (\<lambda>seq. int (length (filter (\<lambda>v. sum_squares v \<noteq> 0) seq))) x) = length (map int ns)"
    by simp
  fix i assume "i < length (map (\<lambda>seq. int (length (filter (\<lambda>v. sum_squares v \<noteq> 0) seq))) x)"
  with l have i: "i < length ns" by simp
  with l right_padded_count[OF rp i zero nonzero]
  show "map (\<lambda>seq. int (length (filter (\<lambda>v. sum_squares v \<noteq> 0) seq))) x ! i = map int ns ! i"
    by simp
qed

lemma mem_nonempty_list: "y \<in> set ys \<Longrightarrow> ys \<noteq> []"
  by (cases ys) simp_all

lemma size1_all: "t \<noteq> [] \<Longrightarrow> \<forall>row \<in> set t. length row = n \<Longrightarrow> size1 t = n"
  by (cases t) (simp_all add: size1_def)

lemma map2_take_nth:
  assumes "length x = length ns"
  shows "map2 (\<lambda>seq l. take (nat l) seq) x (map int ns) = map (\<lambda>i. take (ns ! i) (x ! i)) [0 ..< length ns]"
  using assms by (intro nth_equalityI) simp_all

text \<open>
  Claim C10, as amended.  For a right-padded tensor in which every sequence has at least one
  true timestep, some sequence has no padding at all, and the sum of squares of every true
  timestep is nonzero in the arithmetic of the tensor's dtype (that of a zero vector being
  zero), \<^verbatim>\<open>pack_sequence\<close> succeeds, the lengths it returns are the numbers of true
  timesteps, and \<^verbatim>\<open>unpack_sequence\<close> of the packed sequence is the tensor again.
\<close>

theorem pack_unpack_roundtrip:
  assumes rp: "right_padded x s f ns"
    and pos: "\<forall>i<length ns. 1 \<le> ns ! i"
    and full: "\<exists>i<length ns. ns ! i = s"
    and zero: "sum_squares (replicate f 0) = 0"
    and nonzero: "\<forall>i<length ns. \<forall>t<ns ! i. sum_squares (x ! i ! t) \<noteq> 0"
  shows "\<exists>packed. pack_sequence sum_squares x = Inr (packed, map int ns) \<and> unpack_sequence packed = x"
proof -
  let ?b = "length ns"
  from rp have sh: "has_shape3 x ?b s f" and lx: "length x = ?b"
    by (simp_all add: right_padded_def has_shape3_def)
  from full obtain i0 where i0: "i0 < ?b" "ns ! i0 = s" by blast
  from pos i0 have s1: "1 \<le> s" by auto
  note r0 = right_padded_nth[OF rp i0(1)]
  from r0(3)[of 0] i0(2) s1 obtain k where k: "k < f" "x ! i0 ! 0 ! k \<noteq> 0" by auto
  let ?seqs = "map (\<lambda>i. take (ns ! i) (x ! i)) [0 ..< ?b]"
  have lens: "map (\<lambda>seq. int (length (filter (\<lambda>v. sum_squares v \<noteq> 0) seq))) x = map int ns"
    by (rule right_padded_lengths[OF rp zero nonzero])
  have ne: "numel x \<noteq> 0"
  proof -
    from r0(5)[of 0] s1 k(1) have a: "x ! i0 ! 0 ! k \<in> set (x ! i0 ! 0)" by simp
    from r0(1) s1 have b: "x ! i0 ! 0 \<in> set (x ! i0)" by simp
    from i0(1) lx have c: "x ! i0 \<in> set x" by simp
    from a b c have "x ! i0 ! 0 ! k \<in> set (concat (concat x))" by auto
    then have "concat (concat x) \<noteq> []" by (rule mem_nonempty_list)
    then show ?thesis by (simp add: numel_def)
  qed
  have xne: "x \<noteq> []" using i0(1) lx by auto
  have rows: "\<forall>row \<in> set x. length row = s" using sh by (simp add: has_shape3_def)
  have sz: "size1 x = s" by (rule size1_all[OF xne rows])
  have nonpos: "\<not> (\<exists>l \<in> set (map int ns). l \<le> 0)"
  proof
    assume "\<exists>l \<in> set (map int ns). l \<le> 0"
    then obtain n where "n \<in> set ns" "n = 0" by auto
    then obtain i where "i < ?b" "ns ! i = 0" by (metis in_set_conv_nth)
    with pos show False by auto
  qed
  have within: "\<not> (\<exists>l \<in> set (map int ns). int (size1 x) < l)"
  proof
    assume "\<exists>l \<in> set (map int ns). int (size1 x) < l"
    then obtain n where "n \<in> set ns" "s < n" unfolding sz by auto
    then obtain i where i: "i < ?b" "s < ns ! i" by (metis in_set_conv_nth)
    from right_padded_nth(2)[OF rp i(1)] i(2) show False by simp
  qed
  have pk: "pack_padded_sequence x (map int ns) = Inr (PackedSequence ?seqs)"
    using ne nonpos within lx by (simp add: pack_padded_sequence_def map2_take_nth del: set_map)
  have ps: "pack_sequence sum_squares x = Inr (PackedSequence ?seqs, map int ns)"
    by (simp add: pack_sequence_def lens pk bind_err_def Let_def)
  have slen: "map length ?seqs = ns"
  proof (rule nth_equalityI)
    show "length (map length ?seqs) = length ns" by simp
    fix i assume "i < length (map length ?seqs)"
    then have i: "i < ?b" by simp
    from right_padded_nth(1,2)[OF rp i] i show "map length ?seqs ! i = ns ! i" by simp
  qed
  have mx: "fold max ns 0 = s"
  proof (rule fold_max_eq)
    show "\<forall>n \<in> set ns. n \<le> s"
    proof
      fix n assume "n \<in> set ns"
      then obtain i where "i < ?b" "n = ns ! i" by (metis in_set_conv_nth)
      with right_padded_nth(2)[OF rp] show "n \<le> s" by simp
    qed
    from i0 show "s \<in> set ns" by (metis nth_mem)
  qed
  have zw: "size1 (concat ?seqs) = f"
  proof (rule size1_all)
    from i0 r0(1) s1 have "x ! i0 ! 0 \<in> set (take (ns ! i0) (x ! i0))"
      by (simp add: in_set_conv_nth) (metis One_nat_def Suc_le_lessD nth_take)
    with i0(1) have "x ! i0 ! 0 \<in> set (concat ?seqs)" by auto
    then show "concat ?seqs \<noteq> []" by (rule mem_nonempty_list)
    show "\<forall>row \<in> set (concat ?seqs). length row = f"
    proof
      fix row assume "row \<in> set (concat ?seqs)"
      then obtain i where i: "i < ?b" "row \<in> set (take (ns ! i) (x ! i))" by auto
      then have "row \<in> set (x ! i)" by (meson in_set_takeD)
      moreover from i(1) lx have "x ! i \<in> set x" by simp
      ultimately show "length row = f" using sh by (simp add: has_shape3_def)
    qed
  qed
  have un: "unpack_sequence (PackedSequence ?seqs) = x"
  proof -
    have "unpack_sequence (PackedSequence ?seqs)
            = map (\<lambda>seq. seq @ replicate (s - length seq) (replicate f 0)) ?seqs"
      by (simp only: unpack_sequence_def pad_packed_sequence_def Let_def sequences.simps slen mx zw fst_conv)
    also have "\<dots> = x"
    proof (rule nth_equalityI)
      show "length (map (\<lambda>seq. seq @ replicate (s - length seq) (replicate f 0)) ?seqs) = length x"
        using lx by simp
      fix i assume "i < length (map (\<lambda>seq. seq @ replicate (s - length seq) (replicate f 0)) ?seqs)"
      then have i: "i < ?b" by simp
      note r = right_padded_nth[OF rp i]
      have tl: "length (take (ns ! i) (x ! i)) = ns ! i" using r(1,2) by simp
      have "take (ns ! i) (x ! i) @ replicate (s - ns ! i) (replicate f 0) = x ! i"
        by (rule take_append_zero_tail[OF r(1) r(2)]) (use r(4) in blast)
      with i tl show "map (\<lambda>seq. seq @ replicate (s - length seq) (replicate f 0)) ?seqs ! i = x ! i"
        by simp
    qed
    finally show ?thesis .
  qed
  from ps un show ?thesis by blast
qed

lemma right_padded_example: "right_padded padded_example 2 2 [1, 2]"
proof -
  have a: "\<exists>k<2. ([1, 2] :: real list) ! k \<noteq> 0" by (rule exI[of _ 0]) simp
  have b: "\<exists>k<2. ([0, 3] :: real list) ! k \<noteq> 0" by (rule exI[of _ 1]) simp
  have c: "\<exists>k<2. ([4, 0] :: real list) ! k \<noteq> 0" by (rule exI[of _ 0]) simp
  have d: "t < 2 \<Longrightarrow> 1 \<le> t \<Longrightarrow> [[1, 2], [0, 0 :: real]] ! t = replicate 2 0" for t :: nat
    by (cases t) (simp_all add: eval_nat_numeral)
  show ?thesis
    unfolding right_padded_def padded_example_def
    using a b c d by (auto simp: has_shape3_def all_less_2 less_Suc_eq)
qed

text \<open>A batch of two sequences, of one and of two true timesteps.\<close>

theorem pack_unpack_roundtrip_witness:
  "right_padded padded_example 2 2 [1, 2] \<and>
   exact_sum_squares (replicate 2 0) = 0 \<and>
   (\<exists>packed. pack_sequence exact_sum_squares padded_example = Inr (packed, map int [1, 2]) \<and>
              unpack_sequence packed = padded_example)"
proof -
  have p: "\<forall>i<length [1, 2 :: nat]. 1 \<le> [1, 2 :: nat] ! i" by (auto simp: less_Suc_eq)
  have f: "\<exists>i<length [1, 2 :: nat]. [1, 2 :: nat] ! i = 2" by (rule exI[of _ 1]) simp
  have z: "exact_sum_squares (replicate 2 0) = 0"
    unfolding exact_sum_squares_def sum_squares_zero_iff by simp
  have n: "\<forall>i<length [1, 2 :: nat]. \<forall>t<[1, 2 :: nat] ! i. exact_sum_squares (padded_example ! i ! t) \<noteq> 0"
    by (auto simp: less_Suc_eq exact_sum_squares_def padded_example_def eval_nat_numeral)
  from pack_unpack_roundtrip[OF right_padded_example p f z n] right_padded_example z
  show ?thesis by blast
qed

text \<open>
  Claim C10 as stated fails.  A single sequence of one true timestep padded to two is
  unpacked to length one, the longest true length; and a batch with a sequence that is
  padding only is refused by the packing.
\<close>

lemma right_padded_short: "right_padded [[[1], [0]]] 2 1 [1]"
proof -
  have d: "t < 2 \<Longrightarrow> 1 \<le> t \<Longrightarrow> [[1], [0 :: real]] ! t = replicate 1 0" for t :: nat
    by (cases t) (simp_all add: eval_nat_numeral)
  show ?thesis unfolding right_padded_def using d by (auto simp: has_shape3_def)
qed

lemma right_padded_empty_row: "right_padded [[[1]], [[0]]] 1 1 [1, 0]"
  unfolding right_padded_def by (auto simp: has_shape3_def all_less_2 less_Suc_eq)

theorem pack_unpack_roundtrip_counterexample:
  "right_padded [[[1], [0]]] 2 1 [1]
   \<and> pack_sequence exact_sum_squares [[[1], [0]]] = Inr (PackedSequence [[[1]]], [1])
   \<and> unpack_sequence (PackedSequence [[[1]]]) = [[[1]]]
   \<and> unpack_sequence (PackedSequence [[[1]]]) \<noteq> [[[1], [0]]]
   \<and> right_padded [[[1]], [[0]]] 1 1 [1, 0]
   \<and> pack_sequence exact_sum_squares [[[1]], [[0]]] = Inl RuntimeError"
proof -
  have a: "pack_sequence exact_sum_squares [[[1], [0]]] = Inr (PackedSequence [[[1]]], [1])"
    by (simp add: pack_sequence_def exact_sum_squares_def pack_padded_sequence_def numel_def size1_def
        bind_err_def)
  have b: "unpack_sequence (PackedSequence [[[1]]]) = [[[1]]]"
    by (simp add: unpack_sequence_def pad_packed_sequence_def size1_def)
  have c: "pack_sequence exact_sum_squares [[[1]], [[0]]] = Inl RuntimeError"
    by (simp add: pack_sequence_def exact_sum_squares_def pack_padded_sequence_def numel_def size1_def
        bind_err_def)
  from a b c right_padded_short right_padded_empty_row show ?thesis by simp
qed

text \<open>
  Where squares underflow, a true timestep with a tiny entry is counted as padding: the
  first sequence of this batch gets length 0, and the packing is refused, although every
  true timestep is a nonzero vector, every sequence has one and the second has no padding.
\<close>

lemma pack_sequence_underflow:
  "right_padded tiny_example 2 1 [1, 2]
   \<and> pack_sequence flushing_sum_squares tiny_example = Inl RuntimeError"
proof -
  have d: "t < 2 \<Longrightarrow> 1 \<le> t \<Longrightarrow> [[1 / 10 ^ 30], [0 :: real]] ! t = replicate 1 0" for t :: nat
    by (cases t) (simp_all add: eval_nat_numeral)
  have e: "t < 2 \<Longrightarrow> [[1], [2 :: real]] ! t ! 0 \<noteq> 0" for t :: nat
    by (auto simp: less_Suc_eq numeral_2_eq_2)
  have r: "right_padded tiny_example 2 1 [1, 2]"
    unfolding right_padded_def tiny_example_def using d e
    by (auto simp: has_shape3_def less_Suc_eq)
  have sq: "((1::real) / 10 ^ 30) ^ 2 < 1 / 10 ^ 45" by (simp add: power_divide)
  have p: "pack_sequence flushing_sum_squares tiny_example = Inl RuntimeError"
    using sq
    by (simp add: pack_sequence_def flushing_sum_squares_def tiny_example_def pack_padded_sequence_def
        numel_def size1_def bind_err_def)
  from r p show ?thesis by simp
qed

subsection \<open>\<^verbatim>\<open>GRUDecoder.decode\<close>\<close>

lemma select_dim1_Inr:
  assumes "t \<noteq> []" and "\<forall>row \<in> set t. length row = c" and "j < c"
  shows "select_dim1 t (int j) = Inr (map (\<lambda>row. row ! j) t)"
proof -
  have "size1 t = c" by (rule size1_all[OF assms(1,2)])
  with assms(3) show ?thesis by (simp add: select_dim1_def)
qed

lemma traverse_argmax_rows:
  assumes "\<forall>v \<in> set vs. v \<noteq> []"
  shows "\<exists>idxs. traverse argmax vs = Inr idxs \<and> length idxs = length vs"
proof -
  have "\<exists>ys. traverse argmax vs = Inr ys"
    by (rule traverse_total) (use assms argmax_nonempty in blast)
  then obtain ys where ys: "traverse argmax vs = Inr ys" by blast
  with traverse_length[OF ys] show ?thesis by blast
qed

lemma has_shape3_dim2:
  assumes "has_shape3 a n t v" and "0 < n" and "0 < t"
  shows "size1 (concat a) = v"
proof (rule size1_all)
  from assms have "a \<noteq> []" by (auto simp: has_shape3_def)
  then obtain r rs where a: "a = r # rs" by (cases a) auto
  with assms have "length r = t" by (simp add: has_shape3_def)
  with assms(3) have "r \<noteq> []" by auto
  with a show "concat a \<noteq> []" by simp
  show "\<forall>row \<in> set (concat a). length row = v" using assms(1) by (auto simp: has_shape3_def)
qed

lemma cat_dim1_shape:
  assumes a: "has_shape3 a n t v" and b: "has_shape3 b n 1 v" and n: "0 < n" and t: "0 < t"
  shows "cat_dim1 a b = Inr (map2 (@) a b)" and "has_shape3 (map2 (@) a b) n (Suc t) v"
proof -
  from a b have l: "length a = n" "length b = n" by (simp_all add: has_shape3_def)
  have "size1 (concat a) = v" by (rule has_shape3_dim2[OF a n t])
  moreover have "size1 (concat b) = v" by (rule has_shape3_dim2[OF b n]) simp
  ultimately show "cat_dim1 a b = Inr (map2 (@) a b)" using l by (simp add: cat_dim1_def)
  show "has_shape3 (map2 (@) a b) n (Suc t) v"
    unfolding has_shape3_def
  proof (intro conjI ballI)
    show "length (map2 (@) a b) = n" using l by simp
  next
    fix sent assume "sent \<in> set (map2 (@) a b)"
    then obtain x y where xy: "(x, y) \<in> set (zip a b)" "sent = x @ y" by auto
    then have "x \<in> set a" "y \<in> set b" by (auto dest: set_zip_leftD set_zip_rightD)
    with a b have s: "length x = t" "length y = 1" "\<forall>w \<in> set x. length w = v" "\<forall>w \<in> set y. length w = v"
      by (auto simp: has_shape3_def)
    with xy(2) show "length sent = Suc t" by simp
    fix w assume "w \<in> set sent"
    with xy(2) s(3,4) show "length w = v" by auto
  qed
qed

lemma decode_loop_snoc:
  "decode_loop m2c random self batch ctx (Suc n) st =
     bind_err (decode_loop m2c random self batch ctx n st) (decode_body m2c random self batch ctx)"
proof (induction n arbitrary: st)
  case 0
  show ?case by (cases "decode_body m2c random self batch ctx st") (simp_all add: bind_err_def)
next
  case (Suc n)
  show ?case
  proof (cases "decode_body m2c random self batch ctx st")
    case (Inl e)
    then show ?thesis by (simp add: bind_err_def)
  next
    case (Inr st')
    have "decode_loop m2c random self batch ctx (Suc (Suc n)) st
            = decode_loop m2c random self batch ctx (Suc n) st'"
      using Inr by (simp add: bind_err_def)
    also have "\<dots> = bind_err (decode_loop m2c random self batch ctx n st') (decode_body m2c random self batch ctx)"
      by (rule Suc.IH)
    also have "decode_loop m2c random self batch ctx n st' = decode_loop m2c random self batch ctx (Suc n) st"
      using Inr by (simp add: bind_err_def)
    finally show ?thesis .
  qed
qed

lemma first_input:
  assumes toks: "TOKENS batch = Some tokens"
    and chars: "m2c tokens (w2i vm) None = Inr chars" "has_shape2 chars n c" "0 < c" "0 < n"
  shows "get_char_input_next_timestep m2c random vm batch None tf k = (Inr (map (\<lambda>row. row ! 0) chars), k)"
proof -
  from chars have ne: "chars \<noteq> []" and rows: "\<forall>row \<in> set chars. length row = c"
    by (auto simp: has_shape2_def)
  from select_dim1_Inr[OF ne rows chars(3)] have "select_dim1 chars 0 = Inr (map (\<lambda>row. row ! 0) chars)" by simp
  then show ?thesis
    by (simp add: get_char_input_next_timestep_def toks chars(1) batch_item_def bind_err_def)
qed

lemma later_input:
  assumes tgt: "TARGET_LEMMAS batch = Some target" "has_shape2 target n T"
    and ps: "has_shape3 ps n t v"
    and sizes: "0 < n" "0 < v" "0 < t" "t \<le> T"
  shows "\<exists>own. traverse argmax (map (\<lambda>row. row ! (t - 1)) ps) = Inr own \<and> length own = n \<and>
           get_char_input_next_timestep m2c random vm batch (Some ps) tf k =
             (Inr (if random k < tf then map (\<lambda>row. row ! (t - 1)) target else own), Suc k)"
proof -
  from ps sizes have pne: "ps \<noteq> []" and prow: "\<forall>row \<in> set ps. length row = t" and pl: "length ps = n"
    by (auto simp: has_shape3_def)
  from tgt(2) sizes have tne: "target \<noteq> []" and trow: "\<forall>row \<in> set target. length row = T"
    by (auto simp: has_shape2_def)
  have sz: "size1 ps = t" by (rule size1_all[OF pne prow])
  from sizes have idx: "int t - 1 = int (t - 1)" by simp
  from sizes have lt: "t - 1 < t" "t - 1 < T" by simp_all
  have sp: "select_dim1 ps (int (t - 1)) = Inr (map (\<lambda>row. row ! (t - 1)) ps)"
    by (rule select_dim1_Inr[OF pne prow lt(1)])
  have st: "select_dim1 target (int (t - 1)) = Inr (map (\<lambda>row. row ! (t - 1)) target)"
    by (rule select_dim1_Inr[OF tne trow lt(2)])
  have "\<forall>w \<in> set (map (\<lambda>row. row ! (t - 1)) ps). w \<noteq> []"
  proof
    fix w assume "w \<in> set (map (\<lambda>row. row ! (t - 1)) ps)"
    then obtain row where r: "row \<in> set ps" "w = row ! (t - 1)" by auto
    with prow lt(1) have "w \<in> set row" by simp
    with r(1) ps have "length w = v" by (auto simp: has_shape3_def)
    with sizes show "w \<noteq> []" by auto
  qed
  from traverse_argmax_rows[OF this] obtain own where
    own: "traverse argmax (map (\<lambda>row. row ! (t - 1)) ps) = Inr own" "length own = n"
    using pl by auto
  have e: "get_char_input_next_timestep m2c random vm batch (Some ps) tf k =
             (if random k < tf then (select_dim1 target (int t - 1), Suc k)
              else (bind_err (select_dim1 ps (int t - 1)) (traverse argmax), Suc k))"
    by (simp add: get_char_input_next_timestep_def tgt(1) sz Let_def)
  have "get_char_input_next_timestep m2c random vm batch (Some ps) tf k =
             (Inr (if random k < tf then map (\<lambda>row. row ! (t - 1)) target else own), Suc k)"
    unfolding e idx sp st using own(1) by (simp add: bind_err_def)
  with own show ?thesis by blast
qed

lemma traverse_argmax_bound:
  assumes "traverse argmax vs = Inr own" and "\<forall>w \<in> set vs. length w = v"
  shows "\<forall>c \<in> set own. c < v"
proof
  fix c assume "c \<in> set own"
  then obtain i where i: "i < length own" "c = own ! i" by (metis in_set_conv_nth)
  from traverse_length[OF assms(1)] i(1) have l: "i < length vs" by simp
  from traverse_nth[OF assms(1) l] have a: "argmax (vs ! i) = Inr (own ! i)" .
  from l assms(2) have "length (vs ! i) = v" by simp
  with argmax_Inr[OF a] i(2) show "c < v" by simp
qed

lemma length_concat_uniform: "\<forall>x \<in> set xs. length x = s \<Longrightarrow> length (concat xs) = length xs * s"
  by (induction xs) auto

lemma has_shape3_concat:
  assumes "has_shape3 encoded b s h"
  shows "has_shape2 (concat encoded) (b * s) h"
proof -
  from assms have l: "length encoded = b" and r: "\<forall>sent \<in> set encoded. length sent = s"
    and w: "\<forall>sent \<in> set encoded. \<forall>x \<in> set sent. length x = h"
    by (auto simp: has_shape3_def)
  have "length (concat encoded) = b * s"
    using length_concat_uniform[OF r] l by simp
  moreover have "\<forall>row \<in> set (concat encoded). length row = h" using w by auto
  ultimately show ?thesis by (simp add: has_shape2_def)
qed

lemma column_snoc:
  assumes "has_shape3 ps n t v" and "length p = n" and "j < t"
  shows "map (\<lambda>row. row ! j) (map2 (@) ps p) = map (\<lambda>row. row ! j) ps"
proof (rule nth_equalityI)
  from assms have l: "length ps = n" by (simp add: has_shape3_def)
  with assms(2) show "length (map (\<lambda>row. row ! j) (map2 (@) ps p)) = length (map (\<lambda>row. row ! j) ps)" by simp
  fix i assume "i < length (map (\<lambda>row. row ! j) (map2 (@) ps p))"
  with l assms(2) have i: "i < n" by simp
  from has_shape3_nth(1)[OF assms(1) i] assms(3) have "j < length (ps ! i)" by simp
  with i l assms(2) show "map (\<lambda>row. row ! j) (map2 (@) ps p) ! i = map (\<lambda>row. row ! j) ps ! i"
    by (simp add: nth_append)
qed

lemma column_valid:
  assumes "has_shape2 rows n c" and "j < c" and "\<forall>row \<in> set rows. \<forall>x \<in> set row. x < v"
  shows "length (map (\<lambda>row. row ! j) rows) = n" and "\<forall>x \<in> set (map (\<lambda>row. row ! j) rows). x < v"
proof -
  from assms(1) show "length (map (\<lambda>row. row ! j) rows) = n" by (simp add: has_shape2_def)
  show "\<forall>x \<in> set (map (\<lambda>row. row ! j) rows). x < v"
  proof
    fix x assume "x \<in> set (map (\<lambda>row. row ! j) rows)"
    then obtain row where r: "row \<in> set rows" "x = row ! j" by auto
    with assms(1,2) have "x \<in> set row" by (simp add: has_shape2_def)
    with r(1) assms(3) show "x < v" by blast
  qed
qed

lemma decode_trace_first:
  assumes g: "gru_step self (map (\<lambda>row. row ! 0) chars) ctx ctx = Inr (p, h1)"
  shows "decode_trace self ctx chars target random k 1
           (\<lambda>u. map (\<lambda>row. row ! 0) chars) (\<lambda>u. p) (\<lambda>u. if u = 0 then ctx else h1) p"
  unfolding decode_trace_def using g by simp

lemma decode_trace_next:
  assumes tr: "decode_trace self ctx chars target random k t inp pred hid ps"
    and sh: "has_shape3 ps n t v" and pn: "has_shape3 p n 1 v" and t: "0 < t"
    and own: "traverse argmax (map (\<lambda>row. row ! (t - 1)) ps) = Inr own"
    and x: "x = (if random (k + (t - 1)) < teacher_forcing self
                 then map (\<lambda>row. row ! (t - 1)) target else own)"
    and g: "gru_step self x ctx (hid t) = Inr (p, h')"
  shows "decode_trace self ctx chars target random k (Suc t)
           (inp(t := x)) (pred(t := p)) (hid(Suc t := h')) (map2 (@) ps p)"
proof -
  from sh pn have l: "length ps = n" "length p = n" by (simp_all add: has_shape3_def)
  from tr have
    a: "\<forall>i<length ps. \<forall>u<t. ps ! i ! u = pred u ! i ! 0" and
    b: "hid 0 = ctx" and
    c: "\<forall>u<t. gru_step self (inp u) ctx (hid u) = Inr (pred u, hid (Suc u))" and
    d: "inp 0 = map (\<lambda>row. row ! 0) chars" and
    e: "\<forall>u. 0 < u \<and> u < t \<longrightarrow>
           (\<exists>own. traverse argmax (map (\<lambda>row. row ! (u - 1)) ps) = Inr own
                \<and> inp u = (if random (k + (u - 1)) < teacher_forcing self
                            then map (\<lambda>row. row ! (u - 1)) target else own))"
    unfolding decode_trace_def by blast+
  have a': "\<forall>i<length (map2 (@) ps p). \<forall>u<Suc t. map2 (@) ps p ! i ! u = (pred(t := p)) u ! i ! 0"
  proof (intro allI impI)
    fix i u assume i: "i < length (map2 (@) ps p)" and u: "u < Suc t"
    from i l have i': "i < n" by simp
    from has_shape3_nth(1)[OF sh i'] have lr: "length (ps ! i) = t" .
    from has_shape3_nth(1)[OF pn i'] have lp: "length (p ! i) = 1" .
    have row: "map2 (@) ps p ! i = ps ! i @ p ! i" using i' l by simp
    show "map2 (@) ps p ! i ! u = (pred(t := p)) u ! i ! 0"
    proof (cases "u = t")
      case True
      with row lr show ?thesis by (simp add: nth_append)
    next
      case False
      with u have ut: "u < t" by simp
      with row lr a i' l False show ?thesis by (simp add: nth_append)
    qed
  qed
  have b': "(hid(Suc t := h')) 0 = ctx" using b by simp
  have c': "\<forall>u<Suc t. gru_step self ((inp(t := x)) u) ctx ((hid(Suc t := h')) u)
               = Inr ((pred(t := p)) u, (hid(Suc t := h')) (Suc u))"
  proof (intro allI impI)
    fix u assume u: "u < Suc t"
    show "gru_step self ((inp(t := x)) u) ctx ((hid(Suc t := h')) u)
               = Inr ((pred(t := p)) u, (hid(Suc t := h')) (Suc u))"
    proof (cases "u = t")
      case True
      with g show ?thesis by simp
    next
      case False
      with u have "u < t" by simp
      with c False show ?thesis by simp
    qed
  qed
  have d': "(inp(t := x)) 0 = map (\<lambda>row. row ! 0) chars" using d t by simp
  have e': "\<forall>u. 0 < u \<and> u < Suc t \<longrightarrow>
           (\<exists>own. traverse argmax (map (\<lambda>row. row ! (u - 1)) (map2 (@) ps p)) = Inr own
                \<and> (inp(t := x)) u = (if random (k + (u - 1)) < teacher_forcing self
                            then map (\<lambda>row. row ! (u - 1)) target else own))"
  proof (intro allI impI)
    fix u assume u: "0 < u \<and> u < Suc t"
    then have j: "u - 1 < t" by arith
    have col: "map (\<lambda>row. row ! (u - 1)) (map2 (@) ps p) = map (\<lambda>row. row ! (u - 1)) ps"
      by (rule column_snoc[OF sh l(2) j])
    show "\<exists>own. traverse argmax (map (\<lambda>row. row ! (u - 1)) (map2 (@) ps p)) = Inr own
                \<and> (inp(t := x)) u = (if random (k + (u - 1)) < teacher_forcing self
                            then map (\<lambda>row. row ! (u - 1)) target else own)"
    proof (cases "u = t")
      case True
      with own x show ?thesis unfolding col by simp
    next
      case False
      with u have "0 < u \<and> u < t" by simp
      with e False show ?thesis unfolding col by simp
    qed
  qed
  from a' b' c' d' e' show ?thesis unfolding decode_trace_def by blast
qed

lemma decode_loop_trace:
  assumes toks: "TOKENS batch = Some tokens"
    and chars: "m2c tokens (w2i (vocab_map self)) None = Inr chars" "has_shape2 chars n c" "0 < c"
               "\<forall>row \<in> set chars. \<forall>x \<in> set row. x < v"
    and tgt: "TARGET_LEMMAS batch = Some target" "has_shape2 target n T"
             "\<forall>row \<in> set target. \<forall>x \<in> set row. x < v"
    and sizes: "0 < n" "0 < v"
    and ctx: "has_shape2 ctx n h"
    and net: "net_shape self n v h"
    and t: "0 < t" "t \<le> T"
  shows "\<exists>inp pred hid ps.
           decode_loop m2c random self batch ctx t (None, ctx, k) = Inr (Some ps, hid t, k + (t - 1))
         \<and> has_shape3 ps n t v \<and> has_shape2 (hid t) n h
         \<and> decode_trace self ctx chars target random k t inp pred hid ps"
  using t
proof (induction t)
  case 0
  then show ?case by simp
next
  case (Suc t)
  show ?case
  proof (cases "t = 0")
    case True
    let ?col = "map (\<lambda>row. row ! 0) chars"
    have inp: "get_char_input_next_timestep m2c random (vocab_map self) batch None (teacher_forcing self) k
                 = (Inr ?col, k)"
      by (rule first_input[where m2c = m2c and vm = "vocab_map self", OF toks chars(1,2,3) sizes(1)])
    note cv = column_valid[OF chars(2) chars(3) chars(4)]
    from net cv ctx obtain p h1 where
      g: "gru_step self ?col ctx ctx = Inr (p, h1)" "has_shape3 p n 1 v" "has_shape2 h1 n h"
      unfolding net_shape_def by blast
    define hid0 where "hid0 = (\<lambda>u::nat. if u = 0 then ctx else h1)"
    define inp0 where "inp0 = (\<lambda>u::nat. ?col)"
    define pred0 where "pred0 = (\<lambda>u::nat. p)"
    have body: "decode_body m2c random self batch ctx (None, ctx, k) = Inr (Some p, h1, k)"
      by (simp add: decode_body_def inp g(1) bind_err_def)
    have loop: "decode_loop m2c random self batch ctx (Suc t) (None, ctx, k)
                  = Inr (Some p, hid0 (Suc t), k + (Suc t - 1))"
      using True body by (simp add: bind_err_def hid0_def)
    have tr: "decode_trace self ctx chars target random k (Suc t) inp0 pred0 hid0 p"
      using decode_trace_first[OF g(1)] True unfolding hid0_def inp0_def pred0_def by simp
    have s3: "has_shape3 p n (Suc t) v" using g(2) True by simp
    have s2: "has_shape2 (hid0 (Suc t)) n h" using g(3) by (simp add: hid0_def)
    from loop s3 s2 tr show ?thesis by blast
  next
    case False
    with Suc.prems have t: "0 < t" "t \<le> T" by simp_all
    from Suc.IH[OF t] obtain inp pred hid ps where
      ih: "decode_loop m2c random self batch ctx t (None, ctx, k) = Inr (Some ps, hid t, k + (t - 1))"
          "has_shape3 ps n t v" "has_shape2 (hid t) n h"
          "decode_trace self ctx chars target random k t inp pred hid ps"
      by blast
    from later_input[OF tgt(1,2) ih(2) sizes t, of m2c random "vocab_map self" "teacher_forcing self" "k + (t - 1)"]
    obtain own where
      own: "traverse argmax (map (\<lambda>row. row ! (t - 1)) ps) = Inr own" "length own = n"
        "get_char_input_next_timestep m2c random (vocab_map self) batch (Some ps) (teacher_forcing self) (k + (t - 1)) =
           (Inr (if random (k + (t - 1)) < teacher_forcing self then map (\<lambda>row. row ! (t - 1)) target else own),
            Suc (k + (t - 1)))"
      by blast
    define x where "x = (if random (k + (t - 1)) < teacher_forcing self
                         then map (\<lambda>row. row ! (t - 1)) target else own)"
    from t have t1: "t - 1 < T" by simp
    note tv = column_valid[OF tgt(2) t1 tgt(3)]
    have "\<forall>w \<in> set (map (\<lambda>row. row ! (t - 1)) ps). length w = v"
    proof
      fix w assume "w \<in> set (map (\<lambda>row. row ! (t - 1)) ps)"
      then obtain row where r: "row \<in> set ps" "w = row ! (t - 1)" by auto
      with ih(2) t(1) have "w \<in> set row" by (simp add: has_shape3_def)
      with r(1) ih(2) show "length w = v" by (auto simp: has_shape3_def)
    qed
    from traverse_argmax_bound[OF own(1) this] have ov: "\<forall>c \<in> set own. c < v" .
    have xv: "length x = n" "\<forall>c \<in> set x. c < v"
      using tv own(2) ov by (simp_all add: x_def)
    from net xv ctx ih(3) obtain p h' where
      g: "gru_step self x ctx (hid t) = Inr (p, h')" "has_shape3 p n 1 v" "has_shape2 h' n h"
      unfolding net_shape_def by blast
    note c = cat_dim1_shape[OF ih(2) g(2) sizes(1) t(1)]
    have body: "decode_body m2c random self batch ctx (Some ps, hid t, k + (t - 1))
                  = Inr (Some (map2 (@) ps p), h', Suc (k + (t - 1)))"
      using own(3) g(1) c(1) by (simp add: decode_body_def x_def bind_err_def del: map_map)
    from t have kk: "Suc (k + (t - 1)) = k + (Suc t - 1)" by simp
    define hid1 where "hid1 = hid(Suc t := h')"
    have loop: "decode_loop m2c random self batch ctx (Suc t) (None, ctx, k)
                  = Inr (Some (map2 (@) ps p), hid1 (Suc t), k + (Suc t - 1))"
      unfolding decode_loop_snoc ih(1) hid1_def using body kk by (simp add: bind_err_def)
    have tr: "decode_trace self ctx chars target random k (Suc t)
           (inp(t := x)) (pred(t := p)) hid1 (map2 (@) ps p)"
      unfolding hid1_def
      by (rule decode_trace_next[OF ih(4) ih(2) g(2) t(1) own(1) x_def g(1)])
    have s2: "has_shape2 (hid1 (Suc t)) n h" using g(3) by (simp add: hid1_def)
    from loop c(2) s2 tr show ?thesis by blast
  qed
qed

text \<open>
  Claim C5.  With targets of shape \<open>(n, T)\<close> in the batch (\<open>T > 0\<close>), an encoding of shape
  \<open>(b, s, h)\<close> with \<open>n = b * s\<close>, tokens whose character mapping has shape \<open>(n, c)\<close>, and
  a step network that keeps shapes on indices of the vocabulary, \<^verbatim>\<open>GRUDecoder.decode\<close>
  runs exactly \<open>T\<close> steps and returns predictions of shape \<open>(n, T, v)\<close> after \<open>T - 1\<close>
  random draws.  The returned predictions are those of the steps: column \<open>t\<close> is the
  prediction \<open>pred t\<close> that the step network gives on the input \<open>inp t\<close> of step \<open>t\<close>, the
  context and the hidden state \<open>hid t\<close> left by step \<open>t - 1\<close> (the context itself at step 0).
  The input of step 0 is column 0 of the character mapping of the tokens.  At every step
  \<open>t\<close> with \<open>0 < t < T\<close> the input is decided by one random draw: when the draw is below
  \<^verbatim>\<open>teacher_forcing\<close> it is the \<open>t\<close>-th target character, counted from one, that is column
  \<open>t - 1\<close> of the targets (the gold output of step \<open>t - 1\<close>); otherwise it is the arg-max of
  column \<open>t - 1\<close> of the returned predictions, the decoder's own prediction of step
  \<open>t - 1\<close>.
\<close>

theorem GRUDecoder_decode_training:
  assumes enc: "has_shape3 encoded b s h" "0 < h" "n = b * s"
    and toks: "TOKENS batch = Some tokens"
    and chars: "m2c tokens (w2i (vocab_map self)) None = Inr chars" "has_shape2 chars n c" "0 < c"
               "\<forall>row \<in> set chars. \<forall>x \<in> set row. x < v"
    and tgt: "TARGET_LEMMAS batch = Some target" "has_shape2 target n T"
             "\<forall>row \<in> set target. \<forall>x \<in> set row. x < v"
    and sizes: "0 < n" "0 < v" "0 < T"
    and net: "net_shape self n v h"
  shows "\<exists>inp pred hid predictions.
           GRUDecoder_decode m2c random self encoded batch k = Inr (Some predictions, k + (T - 1))
         \<and> has_shape3 predictions n T v
         \<and> (\<forall>i<n. \<forall>t<T. predictions ! i ! t = pred t ! i ! 0)
         \<and> hid 0 = concat encoded
         \<and> (\<forall>t<T. gru_step self (inp t) (concat encoded) (hid t) = Inr (pred t, hid (Suc t)))
         \<and> inp 0 = map (\<lambda>row. row ! 0) chars
         \<and> (\<forall>t. 0 < t \<and> t < T \<longrightarrow>
               (\<exists>own. traverse argmax (map (\<lambda>row. row ! (t - 1)) predictions) = Inr own
                    \<and> inp t = (if random (k + (t - 1)) < teacher_forcing self
                               then map (\<lambda>row. row ! (t - 1)) target else own)))"
proof -
  from enc(3) sizes(1) have bs: "0 < b" "0 < s" by simp_all
  have ctx: "has_shape2 (concat encoded) n h" unfolding enc(3) by (rule has_shape3_concat[OF enc(1)])
  have "size1 (concat encoded) = h" by (rule has_shape3_dim2[OF enc(1) bs])
  with enc(2) have rc: "reshape_context encoded = Inr (concat encoded)" by (simp add: reshape_context_def)
  from tgt(2) sizes(1) have "target \<noteq> []" "\<forall>row \<in> set target. length row = T"
    by (auto simp: has_shape2_def)
  then have st: "size1 target = T" by (rule size1_all)
  from decode_loop_trace[where m2c = m2c and self = self and random = random and k = k,
      OF toks chars tgt sizes(1,2) ctx net sizes(3) order_refl]
  obtain inp pred hid ps where
    l: "decode_loop m2c random self batch (concat encoded) T (None, concat encoded, k)
          = Inr (Some ps, hid T, k + (T - 1))"
    and sh: "has_shape3 ps n T v"
    and tr: "decode_trace self (concat encoded) chars target random k T inp pred hid ps"
    by blast
  have d: "GRUDecoder_decode m2c random self encoded batch k = Inr (Some ps, k + (T - 1))"
    by (simp add: GRUDecoder_decode_def rc tgt(1) st l bind_err_def)
  from sh have "length ps = n" by (simp add: has_shape3_def)
  with tr have
    a: "\<forall>i<n. \<forall>t<T. ps ! i ! t = pred t ! i ! 0" and
    b: "hid 0 = concat encoded" and
    c: "\<forall>t<T. gru_step self (inp t) (concat encoded) (hid t) = Inr (pred t, hid (Suc t))" and
    e: "inp 0 = map (\<lambda>row. row ! 0) chars" and
    f: "\<forall>t. 0 < t \<and> t < T \<longrightarrow>
           (\<exists>own. traverse argmax (map (\<lambda>row. row ! (t - 1)) ps) = Inr own
                \<and> inp t = (if random (k + (t - 1)) < teacher_forcing self
                            then map (\<lambda>row. row ! (t - 1)) target else own))"
    unfolding decode_trace_def by blast+
  from d sh a b c e f show ?thesis by blast
qed

lemma echo_net_shape: "net_shape echo_decoder n 6 h"
  unfolding net_shape_def
proof (intro allI impI)
  fix next_char_input :: "nat list" and ctx hidden :: tensor2
  assume a: "length next_char_input = n \<and> (\<forall>c \<in> set next_char_input. c < 6) \<and>
             has_shape2 ctx n h \<and> has_shape2 hidden n h"
  then have l: "length ctx = n" "length hidden = n" by (simp_all add: has_shape2_def)
  have sz: "size1 hidden = size1 ctx"
  proof (cases "n = 0")
    case True
    with l show ?thesis by (simp add: size1_def)
  next
    case False
    with l have ne: "ctx \<noteq> []" "hidden \<noteq> []" by auto
    from a have r: "\<forall>row \<in> set ctx. length row = h" "\<forall>row \<in> set hidden. length row = h"
      by (simp_all add: has_shape2_def)
    from size1_all[OF ne(1) r(1)] size1_all[OF ne(2) r(2)] show ?thesis by simp
  qed
  have len: "len char_vocab = 6" by (simp add: char_vocab_def)
  from a have ok: "\<not> (\<exists>c \<in> set next_char_input. len char_vocab \<le> c)" unfolding len by auto
  have g: "gru_step echo_decoder next_char_input ctx hidden
             = Inr (map (\<lambda>c. [one_hot 6 c]) next_char_input, hidden)"
    using ok a l sz by (simp add: echo_decoder_def len)
  have "has_shape3 (map (\<lambda>c. [one_hot 6 c]) next_char_input) n 1 6"
    using a by (auto simp: has_shape3_def one_hot_def)
  with g a show "\<exists>prediction hidden'.
          gru_step echo_decoder next_char_input ctx hidden = Inr (prediction, hidden') \<and>
          has_shape3 prediction n 1 6 \<and> has_shape2 hidden' n h"
    by blast
qed

text \<open>
  The example network keeps shapes, and the example decoder runs on the batch with targets.
\<close>

theorem GRUDecoder_decode_training_witness:
  "\<exists>inp pred hid predictions.
       GRUDecoder_decode stub_chars coin echo_decoder [[[1, 2]]] training_batch 0
         = Inr (Some predictions, 0 + (3 - 1))
     \<and> has_shape3 predictions 1 3 6
     \<and> (\<forall>i<1. \<forall>t<3. predictions ! i ! t = pred t ! i ! 0)
     \<and> hid 0 = concat [[[1, 2]]]
     \<and> (\<forall>t<3. gru_step echo_decoder (inp t) (concat [[[1, 2]]]) (hid t) = Inr (pred t, hid (Suc t)))
     \<and> inp 0 = map (\<lambda>row. row ! 0) [[2, 4, 3]]
     \<and> (\<forall>t. 0 < t \<and> t < 3 \<longrightarrow>
           (\<exists>own. traverse argmax (map (\<lambda>row. row ! (t - 1)) predictions) = Inr own
                \<and> inp t = (if coin (0 + (t - 1)) < teacher_forcing echo_decoder
                           then map (\<lambda>row. row ! (t - 1)) [[4, 5, 3]] else own)))"
proof -
  have enc: "has_shape3 [[[1, 2 :: real]]] 1 1 2" "0 < (2::nat)" "(1::nat) = 1 * 1"
    by (simp_all add: has_shape3_def)
  have toks: "TOKENS training_batch = Some [[''ab'']]" by (simp add: training_batch_def)
  have chars: "stub_chars [[''ab'']] (w2i (vocab_map echo_decoder)) None = Inr [[2, 4, 3]]"
    "has_shape2 [[2, 4, 3 :: nat]] 1 3" "0 < (3::nat)"
    "\<forall>row \<in> set [[2, 4, 3 :: nat]]. \<forall>x \<in> set row. x < 6"
    by (simp_all add: stub_chars_def has_shape2_def)
  have tgt: "TARGET_LEMMAS training_batch = Some [[4, 5, 3]]"
    "has_shape2 [[4, 5, 3 :: nat]] 1 3"
    "\<forall>row \<in> set [[4, 5, 3 :: nat]]. \<forall>x \<in> set row. x < 6"
    by (simp_all add: training_batch_def has_shape2_def)
  have sizes: "0 < (1::nat)" "0 < (6::nat)" "0 < (3::nat)" by simp_all
  show ?thesis
    by (rule GRUDecoder_decode_training[where m2c = stub_chars and self = echo_decoder
          and random = coin and k = 0, OF enc toks chars tgt sizes echo_net_shape])
qed

text \<open>
  Claim C7.  Without the target-lemma key in the batch, \<^verbatim>\<open>GRUDecoder.decode\<close> generates
  nothing: it returns \<open>None\<close> as predictions and makes no random draw, whatever the
  network is; and when the batch has no gold lemmas either, so does the decoder's forward
  pass.
\<close>

theorem GRUDecoder_decode_inference:
  assumes "TARGET_LEMMAS batch = None" and "size1 (concat encoded) \<noteq> 0"
  shows "GRUDecoder_decode m2c random self encoded batch k = Inr (None, k)
       \<and> (LEMMAS batch = None \<longrightarrow> GRUDecoder_forward m2c random self encoded batch k = Inr (None, k))"
  using assms
  by (simp add: GRUDecoder_decode_def GRUDecoder_forward_def GRUDecoder_add_targets_def
      reshape_context_def bind_err_def)

text \<open>The example decoder on the batch without targets.\<close>

theorem GRUDecoder_decode_inference_witness:
  "TARGET_LEMMAS inference_batch = None \<and>
   GRUDecoder_decode stub_chars coin echo_decoder [[[1, 2]]] inference_batch 0 = Inr (None, 0)"
proof -
  have a: "TARGET_LEMMAS inference_batch = None" by (simp add: inference_batch_def)
  have b: "size1 (concat [[[1, 2 :: real]]]) \<noteq> 0" by (simp add: size1_def)
  from GRUDecoder_decode_inference[OF a b, of stub_chars coin echo_decoder 0] a show ?thesis by simp
qed

text \<open>
  The three steps of the example: the input of step 0 is index \<open>2\<close>; step 1 is
  teacher-forced (target column 0, index \<open>4\<close>); step 2 feeds the arg-max of step 1 back.
\<close>

lemma GRUDecoder_decode_example:
  "GRUDecoder_decode stub_chars coin echo_decoder [[[1, 2]]] training_batch 0
     = Inr (Some [[one_hot 6 2, one_hot 6 4, one_hot 6 4]], 2)"
  by (simp add: GRUDecoder_decode_def reshape_context_def size1_def training_batch_def bind_err_def
      decode_body_def get_char_input_next_timestep_def batch_item_def stub_chars_def echo_decoder_def
      char_vocab_def select_dim1_def cat_dim1_def coin_def one_hot_def argmax_def eval_nat_numeral
      upt_rec[of 0])

subsection \<open>Initialisation of the word embedding table\<close>

lemma xavier_bound_nonneg: "0 \<le> xavier_bound fan_in fan_out"
  by (simp add: xavier_bound_def)

lemma uniform_in_bound:
  fixes a u :: real
  assumes "0 \<le> a" and "0 \<le> u" and "u < 1"
  shows "\<bar>- a + (a - (- a)) * u\<bar> \<le> a"
proof -
  have "(a - (- a)) * u = 2 * a * u" by simp
  moreover have "0 \<le> 2 * a * u" using assms by simp
  moreover have "2 * a * u \<le> 2 * a * 1"
    using assms by (intro mult_left_mono) simp_all
  ultimately show ?thesis by (simp add: abs_le_iff)
qed

lemma take1_update0: "0 < length xs \<Longrightarrow> take 1 (xs[0 := v]) = [v]"
  by (cases xs) simp_all

text \<open>
  Claim C8.  A trainable word embedding built with the default \<^verbatim>\<open>padding_idx = 0\<close>
  over a vocabulary of at least two entries has a table with one row per vocabulary entry.
  Row 0, the \<^verbatim>\<open>PAD\<close> row, is all zeros whatever the random draws are.  Every other row
  holds the Xavier-uniform values: entry \<open>(i, j)\<close> is \<open>-a + 2 a u\<close> for the draw \<open>u\<close>
  of \<open>[0, 1)\<close>, with \<open>a = sqrt 3 * sqrt (2 / (d + (n - 1)))\<close>, and lies within
  \<open>[-a, a]\<close>.
\<close>

theorem ClassingWordEmbedding_init_table:
  assumes pad: "padding_idx = 0"
    and size: "1 < len vm"
    and draws: "\<forall>i j. 0 \<le> uniform i j \<and> uniform i j < 1"
  shows "\<exists>emb. ClassingWordEmbedding_init normal uniform vm d padding_idx to_lstm = Inr emb
           \<and> length (weight emb) = len vm
           \<and> weight emb ! 0 = replicate d 0
           \<and> (\<forall>i. 0 < i \<and> i < len vm \<longrightarrow>
                 length (weight emb ! i) = d
                 \<and> (\<forall>j<d. weight emb ! i ! j
                             = - xavier_bound d (len vm - 1)
                               + (xavier_bound d (len vm - 1) - (- xavier_bound d (len vm - 1))) * uniform (i - 1) j
                          \<and> \<bar>weight emb ! i ! j\<bar> \<le> xavier_bound d (len vm - 1)))"
proof -
  let ?n = "len vm"
  let ?a = "xavier_bound d (?n - 1)"
  let ?table = "(map (\<lambda>i. map (normal i) [0 ..< d]) [0 ..< ?n])[0 := replicate d 0]"
  let ?rows = "map (\<lambda>i. map (\<lambda>j. - ?a + (?a - (- ?a)) * uniform i j) [0 ..< d]) [0 ..< ?n - 1]"
  let ?emb = "\<lparr> word_vocab_map = vm, pass_to_bilstm = to_lstm, weight = take 1 ?table @ ?rows \<rparr>"
  from size have n: "0 < ?n" by simp
  have e: "nn_Embedding normal ?n d (Some padding_idx) = Inr ?table"
    using n pad by (simp add: nn_Embedding_def Let_def)
  have dl: "length (drop 1 ?table) = ?n - 1" by simp
  have x: "xavier_uniform uniform (?n - 1) d = Inr ?rows"
    using size by (simp add: xavier_uniform_def Let_def)
  have init: "ClassingWordEmbedding_init normal uniform vm d padding_idx to_lstm = Inr ?emb"
    unfolding ClassingWordEmbedding_init_def e bind_err_def sum.case dl x ..
  have t1: "take 1 ?table = [replicate d 0]"
    by (rule take1_update0) (use n in simp)
  have w: "weight ?emb = replicate d 0 # ?rows" by (simp only: ClassingWordEmbedding.simps t1 append_Cons append_Nil)
  have l: "length (weight ?emb) = ?n" unfolding w using n by simp
  have z: "weight ?emb ! 0 = replicate d 0" unfolding w by simp
  have r: "length (weight ?emb ! i) = d
           \<and> (\<forall>j<d. weight ?emb ! i ! j = - ?a + (?a - (- ?a)) * uniform (i - 1) j
                    \<and> \<bar>weight ?emb ! i ! j\<bar> \<le> ?a)"
    if i: "0 < i \<and> i < ?n" for i
  proof -
    from i obtain i' where i': "i = Suc i'" "i' < ?n - 1" by (cases i) auto
    have row: "weight ?emb ! i = map (\<lambda>j. - ?a + (?a - (- ?a)) * uniform i' j) [0 ..< d]"
      unfolding w i'(1) using i'(2) by simp
    have "\<bar>- ?a + (?a - (- ?a)) * uniform i' j\<bar> \<le> ?a" for j
      by (rule uniform_in_bound[OF xavier_bound_nonneg]) (use draws in auto)
    then show ?thesis unfolding row using i'(1) by simp
  qed
  from init l z r show ?thesis by blast
qed

lemma draws_uniform_range: "\<forall>i j. 0 \<le> draws_uniform i j \<and> draws_uniform i j < 1"
  by (simp add: draws_uniform_def)

text \<open>The tag vocabulary of seven entries with embedding dimension 2.\<close>

theorem ClassingWordEmbedding_init_table_witness:
  "(1::nat) < len tag_vocab \<and>
   (\<exists>emb. ClassingWordEmbedding_init draws_normal draws_uniform tag_vocab 2 0 True = Inr emb
      \<and> length (weight emb) = len tag_vocab
      \<and> weight emb ! 0 = replicate 2 0
      \<and> length (weight emb ! 1) = 2
      \<and> \<bar>weight emb ! 1 ! 0\<bar> \<le> xavier_bound 2 (len tag_vocab - 1))"
proof -
  have s: "1 < len tag_vocab" by (simp add: tag_vocab_def)
  from ClassingWordEmbedding_init_table[OF refl s draws_uniform_range, of draws_normal 2 True]
  obtain emb where e: "ClassingWordEmbedding_init draws_normal draws_uniform tag_vocab 2 0 True = Inr emb"
    "length (weight emb) = len tag_vocab" "weight emb ! 0 = replicate 2 0"
    "\<forall>i. 0 < i \<and> i < len tag_vocab \<longrightarrow>
                 length (weight emb ! i) = 2
                 \<and> (\<forall>j<2. weight emb ! i ! j
                             = - xavier_bound 2 (len tag_vocab - 1)
                               + (xavier_bound 2 (len tag_vocab - 1) - (- xavier_bound 2 (len tag_vocab - 1))) * draws_uniform (i - 1) j
                          \<and> \<bar>weight emb ! i ! j\<bar> \<le> xavier_bound 2 (len tag_vocab - 1))"
    by blast
  have a: "length (weight emb ! 1) = 2
           \<and> (\<forall>j<2. weight emb ! 1 ! j
                             = - xavier_bound 2 (len tag_vocab - 1)
                               + (xavier_bound 2 (len tag_vocab - 1) - (- xavier_bound 2 (len tag_vocab - 1))) * draws_uniform (1 - 1) j
                          \<and> \<bar>weight emb ! 1 ! j\<bar> \<le> xavier_bound 2 (len tag_vocab - 1))"
  proof -
    from s have c: "0 < (1::nat) \<and> 1 < len tag_vocab" by simp
    from e(4)[rule_format, OF c] show ?thesis .
  qed
  from a have b: "\<forall>j<2. weight emb ! 1 ! j
                             = - xavier_bound 2 (len tag_vocab - 1)
                               + (xavier_bound 2 (len tag_vocab - 1) - (- xavier_bound 2 (len tag_vocab - 1))) * draws_uniform (1 - 1) j
                          \<and> \<bar>weight emb ! 1 ! j\<bar> \<le> xavier_bound 2 (len tag_vocab - 1)"
    by (rule conjunct2)
  have z: "(0::nat) < 2" by simp
  from b[rule_format, OF z] have "\<bar>weight emb ! 1 ! 0\<bar> \<le> xavier_bound 2 (len tag_vocab - 1)"
    by (rule conjunct2)
  moreover from a have "length (weight emb ! 1) = 2" by (rule conjunct1)
  ultimately have "length (weight emb ! 1) = 2 \<and> \<bar>weight emb ! 1 ! 0\<bar> \<le> xavier_bound 2 (len tag_vocab - 1)"
    by blast
  with e(1,2,3) s show ?thesis by blast
qed

end
